theory Spec2Isabelle
  imports Main
begin

section \<open>Capture side: \<open>gstreamer_consumer\<close> (consumer/gstreamer_consumer.cpp)\<close>

text \<open>
  A \<open>core::const_frame\<close> is a handle of the host application; the consumer only tests
  whether it is empty.  \<open>None\<close> is the empty frame \<open>core::const_frame{}\<close>, \<open>Some n\<close> the
  frame with identity \<open>n\<close>.  A \<open>std::exception_ptr\<close> is \<open>None\<close> for \<open>nullptr\<close> and
  \<open>Some e\<close> for a stored exception \<open>e\<close>.
\<close>

type_synonym const_frame = "nat option"
type_synonym exception_ptr = "string option"

text \<open>
  \<open>tbb::concurrent_bounded_queue::try_push\<close>: the element is appended when the queue
  holds fewer elements than its capacity; otherwise nothing is inserted and the call
  answers \<open>false\<close>.  The queue is a list, oldest element first.
\<close>

definition try_push :: "int \<Rightarrow> 'a \<Rightarrow> 'a list \<Rightarrow> bool \<times> 'a list" where
  "try_push capacity x q =
     (if int (length q) < capacity then (True, q @ [x]) else (False, q))"

text \<open>
  The fields of \<open>struct gstreamer_consumer\<close> that \<open>send\<close> reads or writes.  A member
  \<open>x_\<close> of the source is written \<open>x_'\<close> throughout, because Isabelle keeps names that
  end in an underscore for its own use.  The diagnostics graph is the list of tags
  raised so far, oldest first; the numeric channels written by \<open>set_value\<close> are
  floating-point samples that no branch reads and are left out.
\<close>

record gstreamer_consumer =
  realtime_' :: bool
  exception_' :: exception_ptr
  frame_buffer_' :: "const_frame list"
  frame_buffer_capacity :: int
  is_running_' :: bool
  graph_' :: "string list"

text \<open>The constructor: \<open>frame_buffer_.set_capacity(realtime_ ? 1 : 64)\<close>.\<close>

definition gstreamer_consumer_new :: "bool \<Rightarrow> gstreamer_consumer" where
  "gstreamer_consumer_new realtime =
     \<lparr> realtime_' = realtime,
       exception_' = None,
       frame_buffer_' = [],
       frame_buffer_capacity = (if realtime then 1 else 64),
       is_running_' = False,
       graph_' = [] \<rparr>"

text \<open>
  The handler at the end of the encode thread's body in \<open>initialize\<close>:
  \<open>catch (...) { exception_ = std::current_exception(); }\<close>.
\<close>

definition frame_thread_catch :: "string \<Rightarrow> gstreamer_consumer \<Rightarrow> gstreamer_consumer" where
  "frame_thread_catch e c = c\<lparr>exception_' := Some e\<rparr>"

text \<open>
  \<open>send\<close>: \<open>Inl (e, c')\<close> is the rethrown exception \<open>e\<close> together with the consumer as
  it is when the exception leaves the call, \<open>Inr (b, c')\<close> the ready future carrying \<open>b\<close>
  together with the consumer after the call.  The statements run in the order of the
  source: the test of \<open>exception_\<close> under its lock, then \<open>try_push\<close>, then the tag.
\<close>

definition send ::
  "const_frame \<Rightarrow> gstreamer_consumer \<Rightarrow>
     (string \<times> gstreamer_consumer) + (bool \<times> gstreamer_consumer)" where
  "send frame c =
     (case exception_' c of
        Some e \<Rightarrow> Inl (e, c)
      | None \<Rightarrow>
          (let (pushed, q) = try_push (frame_buffer_capacity c) frame (frame_buffer_' c);
               c1 = c\<lparr>frame_buffer_' := q\<rparr>;
               c2 = (if \<not> pushed then c1\<lparr>graph_' := graph_' c1 @ [''dropped-frame'']\<rparr> else c1)
           in Inr (is_running_' c2, c2)))"

text \<open>Consecutive \<open>send\<close> calls with no pop in between; the first exception ends the run.\<close>

fun send_all ::
  "const_frame list \<Rightarrow> gstreamer_consumer \<Rightarrow> (string \<times> gstreamer_consumer) + gstreamer_consumer" where
  "send_all [] c = Inr c"
| "send_all (f # fs) c =
     (case send f c of Inl e \<Rightarrow> Inl e | Inr (b, c') \<Rightarrow> send_all fs c')"

definition ten_frames :: "const_frame list" where
  "ten_frames = [Some 1, Some 2, Some 3, Some 4, Some 5, Some 6, Some 7, Some 8, Some 9, Some 10]"


section \<open>Machine integers\<close>

text \<open>
  An \<open>int64_t\<close> is an integer between \<open>- 2 ^ 63\<close> and \<open>2 ^ 63 - 1\<close>.  The sums that the
  source forms from values a control call can set to anything (\<open>start + duration\<close>,
  \<open>frame_time_ + frame_duration_\<close>, \<open>frame.pts + frame.duration\<close>, the position in
  nanoseconds) are taken with the two's-complement wrap-around of the 64-bit target,
  \<open>int64_wrap\<close>.  The counters that grow by one for each frame or call (\<open>frame_count_\<close>,
  \<open>latency_\<close>, \<open>warning_debounce\<close>) cannot reach their bounds in a run of any feasible
  length and are plain integers.  \<open>cpp_rem\<close> is the remainder of the source language,
  which truncates towards zero.
\<close>

definition INT64_MAX :: int where
  "INT64_MAX = 2 ^ 63 - 1"

definition in_int64 :: "int \<Rightarrow> bool" where
  "in_int64 x = (- (2 ^ 63) \<le> x \<and> x < 2 ^ 63)"

definition int64_wrap :: "int \<Rightarrow> int" where
  "int64_wrap x = (x + 2 ^ 63) mod 2 ^ 64 - 2 ^ 63"

definition cpp_rem :: "int \<Rightarrow> int \<Rightarrow> int" where
  "cpp_rem x y = sgn x * (\<bar>x\<bar> mod \<bar>y\<bar>)"


section \<open>Native samples and the sample source: \<open>GstInput\<close> (producer/gst_input.cpp)\<close>

text \<open>
  A \<open>GstSample*\<close> is \<open>None\<close> for \<open>nullptr\<close> and \<open>Some a\<close> for the sample at address \<open>a\<close>.
  The native side is a table of reference counts and of buffer timestamps
  (\<open>GST_BUFFER_PTS\<close>, unsigned nanoseconds), together with the diagnostics graph that
  \<open>GstProducer::Impl\<close> creates and hands to its \<open>GstInput\<close>: the tags raised so far, oldest
  first.  The graph's numeric channels (\<open>set_value\<close>) are floating-point samples that no
  branch reads; they are left out.
\<close>

type_synonym GstSample = "nat option"

record gst_world =
  refcount :: "nat \<Rightarrow> nat"
  buffer_pts :: "nat \<Rightarrow> nat"
  tags :: "string list"

text \<open>The native side before any sample exists.\<close>

definition gst_world_new :: gst_world where
  "gst_world_new = \<lparr> refcount = (\<lambda>a. 0), buffer_pts = (\<lambda>a. 0), tags = [] \<rparr>"

definition gst_sample_ref :: "nat \<Rightarrow> gst_world \<Rightarrow> gst_world" where
  "gst_sample_ref a w = w\<lparr>refcount := (refcount w)(a := refcount w a + 1)\<rparr>"

definition gst_sample_unref :: "nat \<Rightarrow> gst_world \<Rightarrow> gst_world" where
  "gst_sample_unref a w = w\<lparr>refcount := (refcount w)(a := refcount w a - 1)\<rparr>"

definition set_tag :: "string \<Rightarrow> gst_world \<Rightarrow> gst_world" where
  "set_tag name w = w\<lparr>tags := tags w @ [name]\<rparr>"

text \<open>\<open>tbb::concurrent_bounded_queue::try_pop\<close>: the oldest element, if there is one.\<close>

definition try_pop :: "'a list \<Rightarrow> ('a \<times> 'a list) option" where
  "try_pop q = (case q of [] \<Rightarrow> None | x # rest \<Rightarrow> Some (x, rest))"

datatype GstFlowReturn = GST_FLOW_OK | GST_FLOW_ERROR

record GstInput =
  pipeline_' :: bool
  pipeline_seek_pos :: "int option"
  video_buffer_' :: "GstSample list"
  video_buffer_capacity :: int
  audio_buffer_' :: "GstSample list"
  audio_buffer_capacity :: int
  eof_' :: bool
  abort_request_' :: bool

text \<open>
  The constructor sets the capacities to 64 and 128; \<open>pipeline_'\<close> tells whether the
  pipeline handle is non-null after \<open>initialize_pipeline\<close>.  \<open>pipeline_seek_pos\<close> is the
  position in nanoseconds of the last seek issued to the pipeline, if there was one.
\<close>

definition GstInput_new :: "bool \<Rightarrow> GstInput" where
  "GstInput_new pipeline_ok =
     \<lparr> pipeline_' = pipeline_ok,
       pipeline_seek_pos = None,
       video_buffer_' = [], video_buffer_capacity = 64,
       audio_buffer_' = [], audio_buffer_capacity = 128,
       eof_' = False, abort_request_' = False \<rparr>"

text \<open>
  The decode callbacks.  The argument is what \<open>gst_app_sink_pull_sample\<close> returned.
  That call hands its sample over together with one reference, which from then on
  belongs to the callback: the reference count on entry already includes it.
\<close>

definition new_video_sample :: "GstSample \<Rightarrow> GstInput \<times> gst_world \<Rightarrow> GstFlowReturn \<times> GstInput \<times> gst_world" where
  "new_video_sample pulled x =
     (case x of (self, w) \<Rightarrow>
        (case pulled of
           None \<Rightarrow> (GST_FLOW_ERROR, self, w)
         | Some a \<Rightarrow>
             (let w1 = gst_sample_ref a w;
                  (pushed, q) = try_push (video_buffer_capacity self) (Some a) (video_buffer_' self)
              in if \<not> pushed then (GST_FLOW_OK, self, gst_sample_unref a w1)
                 else (GST_FLOW_OK, self\<lparr>video_buffer_' := q\<rparr>, w1))))"

definition new_audio_sample :: "GstSample \<Rightarrow> GstInput \<times> gst_world \<Rightarrow> GstFlowReturn \<times> GstInput \<times> gst_world" where
  "new_audio_sample pulled x =
     (case x of (self, w) \<Rightarrow>
        (case pulled of
           None \<Rightarrow> (GST_FLOW_ERROR, self, w)
         | Some a \<Rightarrow>
             (let w1 = gst_sample_ref a w;
                  (pushed, q) = try_push (audio_buffer_capacity self) (Some a) (audio_buffer_' self)
              in if \<not> pushed then (GST_FLOW_OK, self, gst_sample_unref a w1)
                 else (GST_FLOW_OK, self\<lparr>audio_buffer_' := q\<rparr>, w1))))"

text \<open>
  The loop \<open>while (queue.try_pop(sample)) { if (sample) gst_sample_unref(sample); }\<close>
  that \<open>seek\<close>, \<open>abort\<close>, \<open>reset\<close> and the destructor run on each queue.
\<close>

fun drain :: "GstSample list \<Rightarrow> gst_world \<Rightarrow> GstSample list \<times> gst_world" where
  "drain [] w = ([], w)"
| "drain (sample # rest) w =
     drain rest (case sample of None \<Rightarrow> w | Some a \<Rightarrow> gst_sample_unref a w)"

definition try_pop_video :: "GstInput \<Rightarrow> (GstSample \<times> GstInput) option" where
  "try_pop_video self =
     (case try_pop (video_buffer_' self) of
        None \<Rightarrow> None
      | Some (sample, rest) \<Rightarrow> Some (sample, self\<lparr>video_buffer_' := rest\<rparr>))"

text \<open>
  \<open>GstInput::seek(position, flush)\<close>: nothing without a pipeline; a negative position
  becomes 0; \<open>seek_pos = position * GST_MSECOND\<close> in 64 bits; the queues are drained when
  \<open>flush\<close> is set; the seek is issued to the pipeline (\<open>gst_element_seek_simple\<close>, whose
  answer is only logged); \<open>eof_\<close> is cleared and \<open>seek\<close> is tagged.
\<close>

definition GstInput_seek :: "int \<Rightarrow> bool \<Rightarrow> GstInput \<times> gst_world \<Rightarrow> GstInput \<times> gst_world" where
  "GstInput_seek position flush x =
     (case x of (self, w) \<Rightarrow>
        if \<not> pipeline_' self then (self, w)
        else
          (let position1 = (if position < 0 then 0 else position);
               seek_pos = int64_wrap (position1 * 1000000);
               (self1, w1) =
                 (if flush then
                    (let (vq, wv) = drain (video_buffer_' self) w;
                         (aq, wa) = drain (audio_buffer_' self) wv
                     in (self\<lparr>video_buffer_' := vq, audio_buffer_' := aq\<rparr>, wa))
                  else (self, w));
               self2 = self1\<lparr>pipeline_seek_pos := Some seek_pos\<rparr>
           in (self2\<lparr>eof_' := False\<rparr>, set_tag ''seek'' w1)))"

definition GstInput_abort :: "GstInput \<times> gst_world \<Rightarrow> GstInput \<times> gst_world" where
  "GstInput_abort x =
     (case x of (self, w) \<Rightarrow>
        (let (vq, wv) = drain (video_buffer_' self) w;
             (aq, wa) = drain (audio_buffer_' self) wv
         in (self\<lparr>abort_request_' := True, video_buffer_' := vq, audio_buffer_' := aq\<rparr>, wa)))"

text \<open>The destructor \<open>~GstInput\<close>: what is left of the native side once the object is gone.\<close>

definition GstInput_destroy :: "GstInput \<times> gst_world \<Rightarrow> gst_world" where
  "GstInput_destroy x =
     (case x of (self, w) \<Rightarrow>
        (let (vq, wv) = drain (video_buffer_' self) w;
             (aq, wa) = drain (audio_buffer_' self) wv
         in wa))"

section \<open>Playout side: \<open>GstProducer::Impl\<close> (producer/gst_producer.cpp)\<close>

text \<open>
  \<open>core::draw_frame\<close> and \<open>core::video_field\<close> belong to the host application.  A draw
  frame is empty (\<open>draw_frame{}\<close>), or the picture made from the sample at some address
  (\<open>draw_frame(make_frame(\<dots>, sample))\<close>), or the still of another draw frame
  (\<open>draw_frame::still\<close>).  \<open>draw_frame_bool\<close> is its \<open>operator bool\<close>.
\<close>

datatype draw_frame = Empty_frame | Picture nat | Still draw_frame

fun draw_frame_bool :: "draw_frame \<Rightarrow> bool" where
  "draw_frame_bool Empty_frame = False"
| "draw_frame_bool (Picture a) = True"
| "draw_frame_bool (Still f) = draw_frame_bool f"

datatype video_field = Field_progressive | Field_a | Field_b

record Frame =
  video :: GstSample
  audio :: GstSample
  frame :: draw_frame
  start_time :: int
  pts :: int
  duration :: int
  frame_count :: int

text \<open>The value-initialised \<open>Frame{}\<close>.\<close>

definition Frame_empty :: Frame where
  "Frame_empty =
     \<lparr> video = None, audio = None, frame = Empty_frame,
       start_time = 0, pts = 0, duration = 0, frame_count = 0 \<rparr>"

text \<open>
  The members of \<open>Impl\<close> that the scheduler and the delivery calls use.
  \<open>format_field_count\<close> and \<open>format_duration\<close> are \<open>format_desc_.field_count\<close> and
  \<open>format_desc_.duration\<close>; \<open>world\<close> is the native side shared with \<open>input_\<close>.
\<close>

record Impl =
  format_field_count :: int
  format_duration :: int
  input_' :: GstInput
  world :: gst_world
  start_' :: int
  duration_' :: int
  input_duration_' :: int
  seek_' :: int
  loop_' :: bool
  frame_count_' :: int
  frame_flush_' :: bool
  frame_time_' :: int
  frame_duration_' :: int
  frame_' :: draw_frame
  buffer_' :: "Frame list"
  buffer_eof_' :: bool
  buffer_capacity_' :: int
  latency_' :: int

text \<open>
  The constructor.  \<open>fcount\<close> and \<open>fduration\<close> come from the format descriptor,
  \<open>capacity\<close> is \<open>static_cast<int>(format_desc_.fps) / 4\<close>, and the last four
  arguments are the optional \<open>start\<close>, \<open>seek\<close>, \<open>duration\<close> and \<open>loop\<close>.
\<close>

definition Impl_new ::
  "int \<Rightarrow> int \<Rightarrow> int \<Rightarrow> bool \<Rightarrow> int option \<Rightarrow> int option \<Rightarrow> int option \<Rightarrow> bool option \<Rightarrow> Impl" where
  "Impl_new fcount fduration capacity pipeline_ok start_opt seek_opt duration_opt loop_opt =
     \<lparr> format_field_count = fcount,
       format_duration = fduration,
       input_' = GstInput_new pipeline_ok,
       world = gst_world_new,
       start_' = (case start_opt of None \<Rightarrow> 0 | Some v \<Rightarrow> v),
       duration_' = (case duration_opt of None \<Rightarrow> INT64_MAX | Some v \<Rightarrow> v),
       input_duration_' = 0,
       seek_' = (case seek_opt of None \<Rightarrow> - 1 | Some v \<Rightarrow> if v > 0 then v else - 1),
       loop_' = (case loop_opt of None \<Rightarrow> False | Some v \<Rightarrow> v),
       frame_count_' = 0,
       frame_flush_' = True,
       frame_time_' = 0,
       frame_duration_' = 0,
       frame_' = Empty_frame,
       buffer_' = [],
       buffer_eof_' = False,
       buffer_capacity_' = capacity,
       latency_' = 0 \<rparr>"

text \<open>
  The end of the clip as \<open>run\<close> and \<open>next_frame\<close> both compute it:
  \<open>(duration != INT64_MAX) ? start + duration : INT64_MAX\<close>, the sum in \<open>int64_t\<close>.
\<close>

definition clip_end :: "Impl \<Rightarrow> int" where
  "clip_end s =
     (if duration_' s \<noteq> INT64_MAX then int64_wrap (start_' s + duration_' s)
      else INT64_MAX)"

text \<open>
  \<open>buffer_.size() < buffer_capacity_\<close> compares a \<open>size_t\<close> with an \<open>int\<close>: the
  capacity is converted to the unsigned 64-bit type first.
\<close>

definition buffer_has_room :: "Impl \<Rightarrow> bool" where
  "buffer_has_room s = (int (length (buffer_' s)) < buffer_capacity_' s mod 2 ^ 64)"

text \<open>Releasing the native samples embedded in a pending frame.\<close>

definition unref_frame :: "Frame \<Rightarrow> gst_world \<Rightarrow> gst_world" where
  "unref_frame f w =
     (let w1 = (case video f of None \<Rightarrow> w | Some a \<Rightarrow> gst_sample_unref a w)
      in (case audio f of None \<Rightarrow> w1 | Some a \<Rightarrow> gst_sample_unref a w1))"

text \<open>
  The two places of \<open>next_frame\<close> that tag \<open>underflow\<close>, add one to \<open>latency_\<close> and return
  the empty frame.
\<close>

definition signal_underflow :: "Impl \<Rightarrow> draw_frame \<times> Impl" where
  "signal_underflow s =
     (Empty_frame, s\<lparr>world := set_tag ''underflow'' (world s), latency_' := latency_' s + 1\<rparr>)"

definition prev_frame :: "video_field \<Rightarrow> Impl \<Rightarrow> draw_frame \<times> Impl" where
  "prev_frame field s =
     (let s1 =
        (if field \<noteq> Field_b then
           (if frame_flush_' s \<or> \<not> draw_frame_bool (frame_' s) then
              (if buffer_' s \<noteq> [] then
                 s\<lparr>frame_' := frame (buffer_' s ! 0),
                   frame_time_' := pts (buffer_' s ! 0),
                   frame_duration_' := duration (buffer_' s ! 0),
                   frame_flush_' := False\<rparr>
               else s)
            else s)
         else s)
      in (Still (frame_' s1), s1))"

definition is_ready :: "Impl \<Rightarrow> bool" where
  "is_ready s = (buffer_' s \<noteq> [] \<or> draw_frame_bool (frame_' s))"

definition next_frame :: "video_field \<Rightarrow> Impl \<Rightarrow> draw_frame \<times> Impl" where
  "next_frame field s =
     (if buffer_' s = [] \<or> (frame_flush_' s \<and> length (buffer_' s) < 4) then
        (if buffer_eof_' s \<and> \<not> frame_flush_' s then
           (let s1 =
              (if frame_time_' s < clip_end s \<and> frame_duration_' s \<noteq> 0 then
                 s\<lparr>frame_time_' := int64_wrap (frame_time_' s + frame_duration_' s)\<rparr>
               else if frame_time_' s < clip_end s then
                 s\<lparr>frame_time_' := input_duration_' s\<rparr>
               else s)
            in (Still (frame_' s1), s1))
         else signal_underflow s)
      else if format_field_count s = 2 \<and>
              ((field = Field_a \<and> \<not> (cpp_rem (frame_count (buffer_' s ! 0)) 2 = 0)) \<or>
               (field = Field_b \<and> cpp_rem (frame_count (buffer_' s ! 0)) 2 = 0)) then
        signal_underflow s
      else
        (let s1 = (if latency_' s \<noteq> - 1 then s\<lparr>latency_' := - 1\<rparr> else s);
             s2 = s1\<lparr>frame_' := frame (buffer_' s1 ! 0),
                     frame_time_' := pts (buffer_' s1 ! 0),
                     frame_duration_' := duration (buffer_' s1 ! 0),
                     frame_flush_' := False\<rparr>;
             s3 = s2\<lparr>world := unref_frame (buffer_' s2 ! 0) (world s2)\<rparr>;
             s4 = s3\<lparr>buffer_' := tl (buffer_' s3)\<rparr>
         in (frame_' s4, s4)))"

text \<open>
  \<open>seek\<close> stores the request, then, under the buffer lock, clears the buffer and walks
  over the buffer to release the samples of its frames, in that order.  The two halves
  are separate steps for the other threads.
\<close>

definition seek_store :: "int \<Rightarrow> Impl \<Rightarrow> Impl" where
  "seek_store time s = s\<lparr>seek_' := time\<rparr>"

definition seek_flush :: "Impl \<Rightarrow> Impl" where
  "seek_flush s =
     (let s1 = s\<lparr>buffer_' := []\<rparr>
      in s1\<lparr>world := fold unref_frame (buffer_' s1) (world s1)\<rparr>)"

definition seek :: "int \<Rightarrow> Impl \<Rightarrow> Impl" where
  "seek time s = seek_flush (seek_store time s)"

text \<open>
  The control calls \<open>loop(bool)\<close>, \<open>start(int64_t)\<close> and \<open>duration(int64_t)\<close>; the last
  one is \<open>set_duration\<close> here because \<open>duration\<close> is a field of \<open>Frame\<close>.
\<close>

definition loop :: "bool \<Rightarrow> Impl \<Rightarrow> Impl" where
  "loop v s = s\<lparr>loop_' := v\<rparr>"

definition start :: "int \<Rightarrow> Impl \<Rightarrow> Impl" where
  "start v s = s\<lparr>start_' := v\<rparr>"

definition set_duration :: "int \<Rightarrow> Impl \<Rightarrow> Impl" where
  "set_duration v s = s\<lparr>duration_' := v\<rparr>"

section \<open>The scheduler thread: \<open>Impl::run\<close>\<close>

text \<open>
  One pass of the \<open>while\<close> loop of \<open>run\<close> is cut where the other threads can act in
  between: at the exchange of the seek request (\<open>Loop_top\<close>), at the end-of-clip check
  followed by the pop and the conversion (\<open>Clip_check\<close>), and at the wait on
  \<open>buffer_cond_\<close> with the converted frame in hand (\<open>Buffer_wait\<close>).  The locals of
  \<open>run\<close> are the frame under construction and the miss counter.  Every step reports what
  it did, which also stands for the sleeps and the calls into the sample source.
\<close>

datatype run_pc = Loop_top | Clip_check | Buffer_wait

record run_locals =
  pc :: run_pc
  run_frame :: Frame
  warning_debounce :: int

datatype run_action =
    No_seek
  | Seek_input int
  | Loop_restart int
  | Idle_sleep nat
  | Backoff_sleep nat
  | Null_sample
  | Frame_converted
  | Pushed
  | Push_skipped

text \<open>\<open>seek_.exchange(-1)\<close> and the seek it may trigger.\<close>

definition run_seek :: "run_locals \<Rightarrow> Impl \<Rightarrow> run_action \<times> run_locals \<times> Impl" where
  "run_seek l s =
     (let seek_pos = seek_' s;
          s1 = s\<lparr>seek_' := - 1\<rparr>
      in if seek_pos \<ge> 0 then
           (let (inp, w) = GstInput_seek seek_pos True (input_' s1, world s1)
            in (Seek_input seek_pos,
                l\<lparr>pc := Loop_top, run_frame := Frame_empty\<rparr>,
                s1\<lparr>input_' := inp, world := w, frame_flush_' := True\<rparr>))
         else (No_seek, l\<lparr>pc := Clip_check\<rparr>, s1))"

text \<open>
  The end-of-clip check, and when the clip has not ended the pop of one video sample and
  its conversion into a pending frame.
\<close>

definition run_check :: "run_locals \<Rightarrow> Impl \<Rightarrow> run_action \<times> run_locals \<times> Impl" where
  "run_check l s =
     (let time = int64_wrap (pts (run_frame l) + duration (run_frame l));
          s1 = s\<lparr>buffer_eof_' := (eof_' (input_' s) \<or> time \<ge> clip_end s)\<rparr>
      in if buffer_eof_' s1 then
           (if loop_' s1 \<and> frame_count_' s1 > 2 then
              (let (inp, w) = GstInput_seek (start_' s1) True (input_' s1, world s1)
               in (Loop_restart (start_' s1),
                   l\<lparr>pc := Loop_top, run_frame := Frame_empty\<rparr>,
                   s1\<lparr>input_' := inp, world := w, frame_flush_' := True\<rparr>))
            else (Idle_sleep 10, l\<lparr>pc := Loop_top\<rparr>, s1))
         else
           (case try_pop_video (input_' s1) of
              None \<Rightarrow>
                (Backoff_sleep (if warning_debounce l + 1 > 25 then 20 else 5),
                 l\<lparr>pc := Loop_top, warning_debounce := warning_debounce l + 1\<rparr>,
                 s1)
            | Some (video_sample, inp) \<Rightarrow>
                (case video_sample of
                   None \<Rightarrow> (Null_sample, l\<lparr>pc := Loop_top\<rparr>, s1\<lparr>input_' := inp\<rparr>)
                 | Some a \<Rightarrow>
                     (let f = (run_frame l)
                                \<lparr>video := Some a,
                                 pts := int (buffer_pts (world s1) a div 1000000),
                                 duration := format_duration s1,
                                 frame := Picture a,
                                 frame_count := frame_count_' s1\<rparr>
                      in (Frame_converted,
                          l\<lparr>pc := Buffer_wait, run_frame := f\<rparr>,
                          s1\<lparr>input_' := inp, frame_count_' := frame_count_' s1 + 1\<rparr>)))))"

text \<open>
  The push under the buffer lock.  \<open>None\<close> means that the wait predicate
  \<open>buffer_.size() < buffer_capacity_\<close> is false: the thread stays blocked on
  \<open>buffer_cond_\<close> and nothing changes.
\<close>

definition run_push :: "run_locals \<Rightarrow> Impl \<Rightarrow> (run_action \<times> run_locals \<times> Impl) option" where
  "run_push l s =
     (if \<not> buffer_has_room s then None
      else if seek_' s = - 1 then
        Some (Pushed,
              l\<lparr>pc := Loop_top, run_frame := Frame_empty\<rparr>,
              s\<lparr>buffer_' := buffer_' s @ [run_frame l]\<rparr>)
      else Some (Push_skipped, l\<lparr>pc := Loop_top, run_frame := Frame_empty\<rparr>, s))"

definition scheduler_step :: "run_locals \<times> Impl \<Rightarrow> run_locals \<times> Impl" where
  "scheduler_step x =
     (case x of (l, s) \<Rightarrow>
        (case pc l of
           Loop_top \<Rightarrow> snd (run_seek l s)
         | Clip_check \<Rightarrow> snd (run_check l s)
         | Buffer_wait \<Rightarrow> (case run_push l s of None \<Rightarrow> (l, s) | Some r \<Rightarrow> snd r)))"


section \<open>The threads together\<close>

text \<open>
  What can happen next to a producer: a step of the scheduler thread, a sample handed
  over by the decode graph, the end-of-stream message seen by the monitor thread
  (\<open>Impl\<close> builds its \<open>GstInput\<close> without the loop argument, so that case sets \<open>eof_\<close>), a
  delivery call of the production clock, one half of a seek, or a control call.  Code
  that runs under \<open>buffer_mutex_\<close> is one step.
\<close>

datatype event =
    Scheduler
  | New_video_sample GstSample
  | New_audio_sample GstSample
  | End_of_stream
  | Next_frame video_field
  | Prev_frame video_field
  | Seek_store int
  | Seek_flush
  | Set_loop bool
  | Set_start int
  | Set_duration int

fun step :: "event \<Rightarrow> run_locals \<times> Impl \<Rightarrow> run_locals \<times> Impl" where
  "step Scheduler (l, s) = scheduler_step (l, s)"
| "step (New_video_sample p) (l, s) =
     (case new_video_sample p (input_' s, world s) of
        (r, inp, w) \<Rightarrow> (l, s\<lparr>input_' := inp, world := w\<rparr>))"
| "step (New_audio_sample p) (l, s) =
     (case new_audio_sample p (input_' s, world s) of
        (r, inp, w) \<Rightarrow> (l, s\<lparr>input_' := inp, world := w\<rparr>))"
| "step End_of_stream (l, s) = (l, s\<lparr>input_' := (input_' s)\<lparr>eof_' := True\<rparr>\<rparr>)"
| "step (Next_frame field) (l, s) = (l, snd (next_frame field s))"
| "step (Prev_frame field) (l, s) = (l, snd (prev_frame field s))"
| "step (Seek_store time) (l, s) = (l, seek_store time s)"
| "step Seek_flush (l, s) = (l, seek_flush s)"
| "step (Set_loop v) (l, s) = (l, loop v s)"
| "step (Set_start v) (l, s) = (l, start v s)"
| "step (Set_duration v) (l, s) = (l, set_duration v s)"

definition exec :: "event list \<Rightarrow> run_locals \<times> Impl \<Rightarrow> run_locals \<times> Impl" where
  "exec evs x = fold step evs x"

definition run_locals_new :: run_locals where
  "run_locals_new = \<lparr> pc = Loop_top, run_frame = Frame_empty, warning_debounce = 0 \<rparr>"

text \<open>The frames that exist but have not been delivered: buffered, or in the scheduler's hand.\<close>

definition pending :: "run_locals \<times> Impl \<Rightarrow> Frame set" where
  "pending x =
     (case x of (l, s) \<Rightarrow>
        set (buffer_' s) \<union> (if pc l = Buffer_wait then {run_frame l} else {}))"


section \<open>Concrete inputs\<close>

text \<open>
  A producer for an interlaced 25 frames-per-second format (two fields, 40 ms per frame,
  capacity \<open>25 / 4 = 6\<close>) with no trim, seek or loop argument, and the pending frame made
  from the sample at address \<open>a\<close> with sequence number \<open>n\<close>.
\<close>

definition example_impl :: Impl where
  "example_impl = Impl_new 2 40 6 True None None None None"

definition example_frame :: "nat \<Rightarrow> int \<Rightarrow> Frame" where
  "example_frame a n =
     Frame_empty\<lparr>video := Some a, pts := 40 * n, duration := 40,
                 frame := Picture a, frame_count := n\<rparr>"

text \<open>
  The producer holding nothing, with frame 0 buffered and a flush pending; and the
  producer with frame 1 (odd sequence number) at the head of the buffer and no flush
  pending.
\<close>

definition example_first_frame :: Impl where
  "example_first_frame = example_impl\<lparr>buffer_' := [example_frame 7 0]\<rparr>"

definition example_odd_head :: Impl where
  "example_odd_head = example_impl\<lparr>frame_flush_' := False, buffer_' := [example_frame 8 1]\<rparr>"

text \<open>
  A progressive producer trimmed to the first second of its clip, holding the frame
  with timestamp 960 ms after the end of the clip was flagged; and a looping producer
  that has produced two frames when its sample source reports end-of-stream, with the
  scheduler at the end-of-clip check.
\<close>

definition example_end_hold :: Impl where
  "example_end_hold =
     (Impl_new 1 40 6 True None None (Some 1000) None)
       \<lparr>frame_flush_' := False, frame_time_' := 960, frame_duration_' := 40,
        frame_' := Picture 7, buffer_eof_' := True\<rparr>"

definition example_loop_two :: Impl where
  "example_loop_two =
     (Impl_new 1 40 6 True None None None (Some True))
       \<lparr>input_' := (GstInput_new True)\<lparr>eof_' := True\<rparr>, frame_count_' := 2\<rparr>"

definition example_at_check :: run_locals where
  "example_at_check = run_locals_new\<lparr>pc := Clip_check\<rparr>"

text \<open>
  The looping producer once three frames have been produced.  The producer with a full
  buffer (six frames, numbered 0 to 5) and the scheduler waiting to push frame 6.
\<close>

definition example_loop_three :: Impl where
  "example_loop_three = example_loop_two\<lparr>frame_count_' := 3\<rparr>"

definition example_full :: Impl where
  "example_full = example_impl\<lparr>buffer_' := map (example_frame 7) [0, 1, 2, 3, 4, 5]\<rparr>"

definition example_waiting :: run_locals where
  "example_waiting = run_locals_new\<lparr>pc := Buffer_wait, run_frame := example_frame 7 6\<rparr>"

text \<open>
  A run of a progressive producer.  Two samples arrive; the scheduler converts and
  pushes the first (frame 0), \<open>prev_frame\<close> takes its snapshot, and the scheduler converts
  the second (frame 1) and holds it, about to push.  Then \<open>seek(-1)\<close> is called, and the
  scheduler takes its next step.
\<close>

definition example_progressive :: "run_locals \<times> Impl" where
  "example_progressive = (run_locals_new, Impl_new 1 40 6 True None None None None)"

definition stale_before :: "event list" where
  "stale_before =
     [New_video_sample (Some 7), New_video_sample (Some 8),
      Scheduler, Scheduler, Scheduler,
      Prev_frame Field_progressive,
      Scheduler, Scheduler]"

definition stale_seek :: "event list" where
  "stale_seek = [Seek_store (- 1), Seek_flush]"

definition stale_after :: "event list" where
  "stale_after = [Scheduler]"

definition stale_frame :: Frame where
  "stale_frame =
     Frame_empty\<lparr>video := Some 8, pts := 0, duration := 40, frame := Picture 8, frame_count := 1\<rparr>"

text \<open>
  The same run continued after \<open>seek(0)\<close> instead: the scheduler drops the frame in its
  hand, performs the seek, a new sample arrives and is converted and pushed (frame 2),
  and \<open>prev_frame\<close> takes its snapshot.
\<close>

definition fresh_after :: "event list" where
  "fresh_after =
     [Scheduler, Scheduler,
      New_video_sample (Some 9),
      Scheduler, Scheduler, Scheduler,
      Prev_frame Field_progressive]"

definition seek_zero_run :: "event list" where
  "seek_zero_run = Seek_store 0 # [] @ Seek_flush # fresh_after"

text \<open>
  The producer with frame 0 buffered, whose frame carries the sample at address 7, held
  by one reference.
\<close>

definition example_held_sample :: Impl where
  "example_held_sample = example_first_frame\<lparr>world := gst_sample_ref 7 gst_world_new\<rparr>"

text \<open>
  A sample source whose video queue, and one whose audio queue, is full of other
  samples; and the native side at the moment a decode callback is entered with the
  sample at address 2, whose only reference is the one the pull handed over.
\<close>

definition example_full_video :: GstInput where
  "example_full_video = (GstInput_new True)\<lparr>video_buffer_' := replicate 64 (Some 1)\<rparr>"

definition example_full_audio :: GstInput where
  "example_full_audio = (GstInput_new True)\<lparr>audio_buffer_' := replicate 128 (Some 1)\<rparr>"

definition example_pulled :: gst_world where
  "example_pulled = gst_sample_ref 2 gst_world_new"

text \<open>
  The trimmed producer of the end-hold example with the largest 64-bit sum that a
  control call can ask for: start 2 and duration \<open>INT64_MAX - 1\<close>.
\<close>

definition example_end_hold_wrapped :: Impl where
  "example_end_hold_wrapped =
     example_end_hold\<lparr>start_' := 2, duration_' := INT64_MAX - 1\<rparr>"

text \<open>
  A looping progressive producer trimmed to 40 ms, fed with samples whose timestamps are
  0, 40, 80 and 120 ms.  In \<open>trimmed_run\<close> all four arrive, the scheduler converts and
  pushes the first three, and then reaches the end-of-clip check again.
\<close>

definition example_trimmed :: "run_locals \<times> Impl" where
  "example_trimmed =
     (run_locals_new,
      (Impl_new 1 40 6 True None None (Some 40) (Some True))
        \<lparr>world := gst_world_new\<lparr>buffer_pts := (\<lambda>a. (a - 7) * 40000000)\<rparr>\<rparr>)"

definition trimmed_run :: "event list" where
  "trimmed_run =
     [New_video_sample (Some 7), New_video_sample (Some 8),
      New_video_sample (Some 9), New_video_sample (Some 10),
      Scheduler, Scheduler, Scheduler,
      Scheduler, Scheduler, Scheduler,
      Scheduler, Scheduler, Scheduler,
      Scheduler]"

section \<open>Properties of the states a producer can reach\<close>

text \<open>
  \<open>within_capacity\<close>: the playout buffer holds no more frames than its capacity.
  \<open>frames_numbered\<close>: every pending frame has a sequence number below the counter.
  \<open>hand_fresh n\<close>: the counter is at least \<open>n\<close>, and a frame in the scheduler's hand
  numbered below \<open>n\<close> is there only while a seek request is stored.
  \<open>buffer_fresh n\<close>: every buffered frame has a sequence number of at least \<open>n\<close>.
\<close>

definition within_capacity :: "run_locals \<times> Impl \<Rightarrow> bool" where
  "within_capacity x = (int (length (buffer_' (snd x))) \<le> buffer_capacity_' (snd x))"

definition frames_numbered :: "run_locals \<times> Impl \<Rightarrow> bool" where
  "frames_numbered x = (\<forall>f \<in> pending x. frame_count f < frame_count_' (snd x))"

definition hand_fresh :: "int \<Rightarrow> run_locals \<times> Impl \<Rightarrow> bool" where
  "hand_fresh n x =
     ((pc (fst x) = Buffer_wait \<longrightarrow> n \<le> frame_count (run_frame (fst x)) \<or> seek_' (snd x) \<noteq> - 1)
      \<and> n \<le> frame_count_' (snd x))"

definition buffer_fresh :: "int \<Rightarrow> run_locals \<times> Impl \<Rightarrow> bool" where
  "buffer_fresh n x = (\<forall>f \<in> set (buffer_' (snd x)). n \<le> frame_count f)"

text \<open>
  \<open>hand_empty\<close>: unless the scheduler waits to push, the frame it works on is the
  empty \<open>Frame{}\<close>.
\<close>

definition hand_empty :: "run_locals \<times> Impl \<Rightarrow> bool" where
  "hand_empty x = (pc (fst x) \<noteq> Buffer_wait \<longrightarrow> run_frame (fst x) = Frame_empty)"

section \<open>Machine integers: results\<close>

lemma int64_wrap_id: "in_int64 x \<Longrightarrow> int64_wrap x = x"
  by (simp add: in_int64_def int64_wrap_def)

lemma int64_wrap_in_range: "in_int64 (int64_wrap x)"
  by (simp add: in_int64_def int64_wrap_def)


section \<open>Sample source: results\<close>

lemma ref_unref_same [simp]: "gst_sample_unref a (gst_sample_ref a w) = w"
  by (simp add: gst_sample_unref_def gst_sample_ref_def)

text \<open>
  Draining a queue empties it and takes one reference from a sample for every time the
  queue held it.
\<close>

lemma drain_empties: "fst (drain q w) = []"
  by (induction q arbitrary: w) simp_all

lemma drain_refcount:
  "refcount (snd (drain q w)) a = refcount w a - count_list q (Some a)"
proof (induction q arbitrary: w)
  case Nil
  then show ?case by simp
next
  case (Cons sample rest)
  show ?case
  proof (cases sample)
    case None
    then show ?thesis by (simp add: Cons.IH)
  next
    case (Some b)
    then show ?thesis by (simp add: Cons.IH gst_sample_unref_def)
  qed
qed

lemma GstInput_seek_releases_queued:
  "pipeline_' self \<Longrightarrow>
   video_buffer_' (fst (GstInput_seek p True (self, w))) = [] \<and>
   audio_buffer_' (fst (GstInput_seek p True (self, w))) = [] \<and>
   refcount (snd (GstInput_seek p True (self, w))) a =
     refcount w a - count_list (video_buffer_' self) (Some a)
                  - count_list (audio_buffer_' self) (Some a)"
  using drain_empties [of "video_buffer_' self" w]
        drain_empties [of "audio_buffer_' self" "snd (drain (video_buffer_' self) w)"]
        drain_refcount [of "audio_buffer_' self" "snd (drain (video_buffer_' self) w)" a]
        drain_refcount [of "video_buffer_' self" w a]
  by (simp add: GstInput_seek_def split_def set_tag_def)

lemma GstInput_destroy_releases_queued:
  "refcount (GstInput_destroy (self, w)) a =
     refcount w a - count_list (video_buffer_' self) (Some a)
                  - count_list (audio_buffer_' self) (Some a)"
  using drain_refcount [of "audio_buffer_' self" "snd (drain (video_buffer_' self) w)" a]
        drain_refcount [of "video_buffer_' self" w a]
  by (simp add: GstInput_destroy_def split_def)

text \<open>
  With the queue full, a decode callback leaves the sample source and every reference
  count exactly as it found them: the reference it adds for the queue is given back.
\<close>

lemma full_queue_callback_changes_nothing:
  "(\<not> int (length (video_buffer_' self)) < video_buffer_capacity self \<longrightarrow>
      new_video_sample (Some a) (self, w) = (GST_FLOW_OK, self, w))
   \<and> (\<not> int (length (audio_buffer_' self)) < audio_buffer_capacity self \<longrightarrow>
      new_audio_sample (Some a) (self, w) = (GST_FLOW_OK, self, w))"
  by (simp add: new_video_sample_def new_audio_sample_def try_push_def)

text \<open>
  C9 (what the code does).  The video queue holds 64 other samples, and the callback is
  entered with the sample at address 2, whose one reference is the one the pull handed
  to the callback.  The callback answers \<open>GST_FLOW_OK\<close> and the queue is as before, without
  the new sample; but the sample still has its reference after the callback has
  returned and forgotten it: the reference is not released.  The audio callback does the
  same with its queue of 128.
\<close>

theorem C9_dropped_sample_keeps_its_reference:
  "int (length (video_buffer_' example_full_video)) = video_buffer_capacity example_full_video
   \<and> Some 2 \<notin> set (video_buffer_' example_full_video)
   \<and> refcount example_pulled 2 = 1
   \<and> fst (new_video_sample (Some 2) (example_full_video, example_pulled)) = GST_FLOW_OK
   \<and> fst (snd (new_video_sample (Some 2) (example_full_video, example_pulled)))
       = example_full_video
   \<and> refcount (snd (snd (new_video_sample (Some 2) (example_full_video, example_pulled)))) 2
       = 1
   \<and> int (length (audio_buffer_' example_full_audio)) = audio_buffer_capacity example_full_audio
   \<and> Some 2 \<notin> set (audio_buffer_' example_full_audio)
   \<and> fst (new_audio_sample (Some 2) (example_full_audio, example_pulled)) = GST_FLOW_OK
   \<and> fst (snd (new_audio_sample (Some 2) (example_full_audio, example_pulled)))
       = example_full_audio
   \<and> refcount (snd (snd (new_audio_sample (Some 2) (example_full_audio, example_pulled)))) 2
       = 1"
  by (simp add: new_video_sample_def new_audio_sample_def try_push_def example_full_video_def
        example_full_audio_def example_pulled_def GstInput_new_def gst_world_new_def
        gst_sample_ref_def gst_sample_unref_def)

section \<open>Delivery calls: the three ways through \<open>next_frame\<close>\<close>

lemma next_frame_starved:
  assumes "buffer_' s = [] \<or> (frame_flush_' s \<and> length (buffer_' s) < 4)"
  shows "next_frame field s =
     (if buffer_eof_' s \<and> \<not> frame_flush_' s then
           (let s1 =
              (if frame_time_' s < clip_end s \<and> frame_duration_' s \<noteq> 0 then
                 s\<lparr>frame_time_' := int64_wrap (frame_time_' s + frame_duration_' s)\<rparr>
               else if frame_time_' s < clip_end s then
                 s\<lparr>frame_time_' := input_duration_' s\<rparr>
               else s)
            in (Still (frame_' s1), s1))
         else signal_underflow s)"
  unfolding next_frame_def using assms by (simp only: if_True)

lemma next_frame_wrong_field:
  assumes "\<not> (buffer_' s = [] \<or> (frame_flush_' s \<and> length (buffer_' s) < 4))"
    and "format_field_count s = 2 \<and>
              ((field = Field_a \<and> \<not> (cpp_rem (frame_count (buffer_' s ! 0)) 2 = 0)) \<or>
               (field = Field_b \<and> cpp_rem (frame_count (buffer_' s ! 0)) 2 = 0))"
  shows "next_frame field s = signal_underflow s"
  unfolding next_frame_def using assms by simp

lemma next_frame_pop:
  assumes "\<not> (buffer_' s = [] \<or> (frame_flush_' s \<and> length (buffer_' s) < 4))"
    and "\<not> (format_field_count s = 2 \<and>
              ((field = Field_a \<and> \<not> (cpp_rem (frame_count (buffer_' s ! 0)) 2 = 0)) \<or>
               (field = Field_b \<and> cpp_rem (frame_count (buffer_' s ! 0)) 2 = 0)))"
  shows "next_frame field s =
     (frame (buffer_' s ! 0),
      s\<lparr>latency_' := - 1,
        frame_' := frame (buffer_' s ! 0),
        frame_time_' := pts (buffer_' s ! 0),
        frame_duration_' := duration (buffer_' s ! 0),
        frame_flush_' := False,
        world := unref_frame (buffer_' s ! 0) (world s),
        buffer_' := tl (buffer_' s)\<rparr>)"
proof -
  have "next_frame field s =
        (let s1 = (if latency_' s \<noteq> - 1 then s\<lparr>latency_' := - 1\<rparr> else s);
             s2 = s1\<lparr>frame_' := frame (buffer_' s1 ! 0),
                     frame_time_' := pts (buffer_' s1 ! 0),
                     frame_duration_' := duration (buffer_' s1 ! 0),
                     frame_flush_' := False\<rparr>;
             s3 = s2\<lparr>world := unref_frame (buffer_' s2 ! 0) (world s2)\<rparr>;
             s4 = s3\<lparr>buffer_' := tl (buffer_' s3)\<rparr>
         in (frame_' s4, s4))"
    unfolding next_frame_def using assms by (simp only: if_False)
  also have "\<dots> = (frame (buffer_' s ! 0),
      s\<lparr>latency_' := - 1,
        frame_' := frame (buffer_' s ! 0),
        frame_time_' := pts (buffer_' s ! 0),
        frame_duration_' := duration (buffer_' s ! 0),
        frame_flush_' := False,
        world := unref_frame (buffer_' s ! 0) (world s),
        buffer_' := tl (buffer_' s)\<rparr>)"
    by (cases "latency_' s = - 1") (simp_all add: Let_def)
  finally show ?thesis .
qed

lemma next_frame_starved_buffer:
  assumes "buffer_' s = [] \<or> (frame_flush_' s \<and> length (buffer_' s) < 4)"
  shows "buffer_' (snd (next_frame field s)) = buffer_' s"
  by (simp add: next_frame_starved [OF assms] signal_underflow_def Let_def)

lemma next_frame_wrong_field_buffer:
  assumes "\<not> (buffer_' s = [] \<or> (frame_flush_' s \<and> length (buffer_' s) < 4))"
    and "format_field_count s = 2 \<and>
              ((field = Field_a \<and> \<not> (cpp_rem (frame_count (buffer_' s ! 0)) 2 = 0)) \<or>
               (field = Field_b \<and> cpp_rem (frame_count (buffer_' s ! 0)) 2 = 0))"
  shows "buffer_' (snd (next_frame field s)) = buffer_' s"
  by (simp add: next_frame_wrong_field [OF assms] signal_underflow_def)

text \<open>If the buffer is different after \<open>next_frame\<close>, its head was delivered.\<close>

lemma next_frame_changed_buffer:
  assumes "buffer_' (snd (next_frame field s)) \<noteq> buffer_' s"
  shows "buffer_' s \<noteq> []"
    and "fst (next_frame field s) = frame (buffer_' s ! 0)"
    and "buffer_' (snd (next_frame field s)) = tl (buffer_' s)"
    and "\<not> (format_field_count s = 2 \<and>
              ((field = Field_a \<and> \<not> (cpp_rem (frame_count (buffer_' s ! 0)) 2 = 0)) \<or>
               (field = Field_b \<and> cpp_rem (frame_count (buffer_' s ! 0)) 2 = 0)))"
proof -
  have a: "\<not> (buffer_' s = [] \<or> (frame_flush_' s \<and> length (buffer_' s) < 4))"
    using assms next_frame_starved_buffer [of s field] by blast
  then show "buffer_' s \<noteq> []" by blast
  show b: "\<not> (format_field_count s = 2 \<and>
              ((field = Field_a \<and> \<not> (cpp_rem (frame_count (buffer_' s ! 0)) 2 = 0)) \<or>
               (field = Field_b \<and> cpp_rem (frame_count (buffer_' s ! 0)) 2 = 0)))"
    using assms a next_frame_wrong_field_buffer [of s field] by blast
  show "fst (next_frame field s) = frame (buffer_' s ! 0)"
    by (simp add: next_frame_pop [OF a b])
  show "buffer_' (snd (next_frame field s)) = tl (buffer_' s)"
    by (simp add: next_frame_pop [OF a b])
qed

section \<open>Delivery calls: results\<close>

text \<open>
  C5 (what the code does).  The producer's \<open>seek\<close> empties the playout buffer and
  releases nothing: the release loop runs over the buffer after it has been cleared, so
  every reference count is as it was before the call, whatever samples the removed
  frames carried.  With one frame buffered that holds the sample at address 7 with one
  reference, the buffer is empty after \<open>seek(0)\<close> and the sample still has that
  reference, which nothing can reach any more.
\<close>

theorem C5_producer_seek_releases_nothing:
  "buffer_' (seek time s) = [] \<and> refcount (world (seek time s)) = refcount (world s)
   \<and> video (buffer_' example_held_sample ! 0) = Some 7
   \<and> refcount (world example_held_sample) 7 = 1
   \<and> buffer_' (seek 0 example_held_sample) = []
   \<and> refcount (world (seek 0 example_held_sample)) 7 = 1"
  by (simp add: seek_def seek_flush_def seek_store_def example_held_sample_def
        example_first_frame_def example_frame_def gst_sample_ref_def gst_world_new_def)

text \<open>
  C8.  \<open>prev_frame\<close> with field B changes nothing and returns the still of the held
  frame, so \<open>prev_frame\<close> with field A followed by \<open>prev_frame\<close> with field B returns the
  same still twice.  No call of \<open>prev_frame\<close> changes the buffer.  When a call does change
  the held frame, the field was not B, a flush was pending or no frame was held, the
  buffer was not empty, and the new held frame is the one at the buffer's head.
\<close>

theorem C8_prev_frame_pairs_fields:
  "prev_frame Field_b s = (Still (frame_' s), s)
   \<and> fst (prev_frame Field_b (snd (prev_frame field s))) = fst (prev_frame field s)
   \<and> buffer_' (snd (prev_frame field s)) = buffer_' s
   \<and> (frame_' (snd (prev_frame field s)) \<noteq> frame_' s \<longrightarrow>
        field \<noteq> Field_b \<and> (frame_flush_' s \<or> \<not> draw_frame_bool (frame_' s)) \<and>
        buffer_' s \<noteq> [] \<and>
        frame_' (snd (prev_frame field s)) = frame (buffer_' s ! 0))"
  by (simp add: prev_frame_def Let_def)

theorem C8_prev_frame_pairs_fields_witness:
  "frame_' (snd (prev_frame Field_a example_first_frame)) \<noteq> frame_' example_first_frame
   \<and> frame_' (snd (prev_frame Field_a example_first_frame)) = Picture 7
   \<and> buffer_' (snd (prev_frame Field_a example_first_frame)) = [example_frame 7 0]
   \<and> fst (prev_frame Field_b (snd (prev_frame Field_a example_first_frame))) = Still (Picture 7)"
proof -
  have s: "buffer_' example_first_frame = [example_frame 7 0]"
          "frame_' example_first_frame = Empty_frame"
    by (simp_all add: example_first_frame_def example_impl_def Impl_new_def)
  have f: "frame (example_frame 7 0) = Picture 7"
    by (simp add: example_frame_def)
  have first: "fst (prev_frame Field_a example_first_frame) = Still (Picture 7)"
    by (simp add: prev_frame_def s f)
  have changed: "frame_' (snd (prev_frame Field_a example_first_frame)) \<noteq> frame_' example_first_frame"
    by (simp add: prev_frame_def s f)
  note t = C8_prev_frame_pairs_fields [of example_first_frame Field_a]
  from t changed have "frame_' (snd (prev_frame Field_a example_first_frame)) = Picture 7"
    by (simp add: s f)
  moreover from t have "buffer_' (snd (prev_frame Field_a example_first_frame)) = [example_frame 7 0]"
    by (simp add: s)
  moreover from t first
  have "fst (prev_frame Field_b (snd (prev_frame Field_a example_first_frame))) = Still (Picture 7)"
    by simp
  ultimately show ?thesis using changed by blast
qed

text \<open>
  C7.  In two-field mode, when the buffer is not empty and the parity of the sequence
  number at its head does not match the requested field, \<open>next_frame\<close> returns the empty
  frame, tags \<open>underflow\<close>, adds one to the latency counter and changes nothing else, so
  nothing is popped.  Conversely, whenever \<open>next_frame\<close> takes a frame out of the buffer in
  two-field mode, it returns that frame, and its sequence number is even for field A and
  odd for field B.
\<close>

theorem C7_wrong_parity_is_underflow:
  "(format_field_count s = 2 \<and> buffer_' s \<noteq> [] \<and>
    ((field = Field_a \<and> cpp_rem (frame_count (buffer_' s ! 0)) 2 \<noteq> 0) \<or>
     (field = Field_b \<and> cpp_rem (frame_count (buffer_' s ! 0)) 2 = 0)) \<longrightarrow>
      next_frame field s =
        (Empty_frame,
         s\<lparr>world := set_tag ''underflow'' (world s), latency_' := latency_' s + 1\<rparr>))
   \<and> (format_field_count s = 2 \<and> buffer_' (snd (next_frame field s)) \<noteq> buffer_' s \<longrightarrow>
      buffer_' s \<noteq> [] \<and>
      fst (next_frame field s) = frame (buffer_' s ! 0) \<and>
      buffer_' (snd (next_frame field s)) = tl (buffer_' s) \<and>
      (field = Field_a \<longrightarrow> cpp_rem (frame_count (buffer_' s ! 0)) 2 = 0) \<and>
      (field = Field_b \<longrightarrow> cpp_rem (frame_count (buffer_' s ! 0)) 2 \<noteq> 0))"
proof (intro conjI impI)
  assume h: "format_field_count s = 2 \<and> buffer_' s \<noteq> [] \<and>
    ((field = Field_a \<and> cpp_rem (frame_count (buffer_' s ! 0)) 2 \<noteq> 0) \<or>
     (field = Field_b \<and> cpp_rem (frame_count (buffer_' s ! 0)) 2 = 0))"
  have "next_frame field s = signal_underflow s"
  proof (cases "buffer_' s = [] \<or> (frame_flush_' s \<and> length (buffer_' s) < 4)")
    case True
    with h have "frame_flush_' s" by blast
    then show ?thesis by (simp add: next_frame_starved [OF True])
  next
    case False
    from next_frame_wrong_field [OF False] h show ?thesis by blast
  qed
  then show "next_frame field s =
        (Empty_frame,
         s\<lparr>world := set_tag ''underflow'' (world s), latency_' := latency_' s + 1\<rparr>)"
    by (simp add: signal_underflow_def)
next
  assume h: "format_field_count s = 2 \<and> buffer_' (snd (next_frame field s)) \<noteq> buffer_' s"
  then have c: "buffer_' (snd (next_frame field s)) \<noteq> buffer_' s" by blast
  note r = next_frame_changed_buffer [OF c]
  show "buffer_' s \<noteq> []" by (rule r(1))
  show "fst (next_frame field s) = frame (buffer_' s ! 0)" by (rule r(2))
  show "buffer_' (snd (next_frame field s)) = tl (buffer_' s)" by (rule r(3))
  show "cpp_rem (frame_count (buffer_' s ! 0)) 2 = 0" if "field = Field_a"
    using r(4) h that by blast
  show "cpp_rem (frame_count (buffer_' s ! 0)) 2 \<noteq> 0" if "field = Field_b"
    using r(4) h that by blast
qed

theorem C7_wrong_parity_is_underflow_witness:
  "format_field_count example_odd_head = 2
   \<and> buffer_' example_odd_head = [example_frame 8 1]
   \<and> cpp_rem (frame_count (example_frame 8 1)) 2 \<noteq> 0
   \<and> fst (next_frame Field_a example_odd_head) = Empty_frame
   \<and> buffer_' (snd (next_frame Field_a example_odd_head)) = [example_frame 8 1]
   \<and> latency_' (snd (next_frame Field_a example_odd_head)) = latency_' example_odd_head + 1
   \<and> tags (world (snd (next_frame Field_a example_odd_head))) = [''underflow'']
   \<and> fst (next_frame Field_b example_odd_head) = Picture 8
   \<and> buffer_' (snd (next_frame Field_b example_odd_head)) = []"
proof -
  let ?s = example_odd_head
  have fc: "format_field_count ?s = 2" "buffer_' ?s = [example_frame 8 1]"
           "frame_flush_' ?s = False" "tags (world ?s) = []"
    by (simp_all add: example_odd_head_def example_impl_def Impl_new_def gst_world_new_def)
  have odd: "cpp_rem (frame_count (example_frame 8 1)) 2 \<noteq> 0"
    by (simp add: example_frame_def cpp_rem_def)
  have pic: "frame (example_frame 8 1) = Picture 8"
    by (simp add: example_frame_def)
  have hyp_a: "format_field_count ?s = 2 \<and> buffer_' ?s \<noteq> [] \<and>
    ((Field_a = Field_a \<and> cpp_rem (frame_count (buffer_' ?s ! 0)) 2 \<noteq> 0) \<or>
     (Field_a = Field_b \<and> cpp_rem (frame_count (buffer_' ?s ! 0)) 2 = 0))"
    using odd by (simp add: fc)
  with C7_wrong_parity_is_underflow [of ?s Field_a]
  have ea: "next_frame Field_a ?s =
        (Empty_frame,
         ?s\<lparr>world := set_tag ''underflow'' (world ?s), latency_' := latency_' ?s + 1\<rparr>)"
    by blast
  have a: "\<not> (buffer_' ?s = [] \<or> (frame_flush_' ?s \<and> length (buffer_' ?s) < 4))"
    by (simp add: fc)
  have b: "\<not> (format_field_count ?s = 2 \<and>
              ((Field_b = Field_a \<and> \<not> (cpp_rem (frame_count (buffer_' ?s ! 0)) 2 = 0)) \<or>
               (Field_b = Field_b \<and> cpp_rem (frame_count (buffer_' ?s ! 0)) 2 = 0)))"
    using odd by (simp add: fc)
  have popped: "buffer_' (snd (next_frame Field_b ?s)) = []"
    by (simp add: next_frame_pop [OF a b] fc)
  then have hyp_b: "format_field_count ?s = 2 \<and> buffer_' (snd (next_frame Field_b ?s)) \<noteq> buffer_' ?s"
    by (simp add: fc)
  with C7_wrong_parity_is_underflow [of ?s Field_b]
  have "fst (next_frame Field_b ?s) = frame (buffer_' ?s ! 0)"
    by blast
  then have eb: "fst (next_frame Field_b ?s) = Picture 8"
    by (simp add: fc pic)
  have "fst (next_frame Field_a ?s) = Empty_frame"
       "buffer_' (snd (next_frame Field_a ?s)) = [example_frame 8 1]"
       "latency_' (snd (next_frame Field_a ?s)) = latency_' ?s + 1"
       "tags (world (snd (next_frame Field_a ?s))) = [''underflow'']"
    by (simp_all add: ea fc set_tag_def)
  with fc odd eb popped show ?thesis by blast
qed

text \<open>
  C2 (as stated, refuted).  The clip is trimmed to 1000 ms, the end of the clip is
  flagged, no flush is pending, the buffer is empty and the held frame has timestamp
  960 ms and duration 40 ms.  The first \<open>next_frame\<close> moves the timestamp to 1000 ms; the
  second one, in the same situation, leaves it at 1000 ms instead of adding another
  frame duration.
\<close>

theorem C2_timestamp_stops_at_clip_end:
  "buffer_eof_' (snd (next_frame Field_progressive example_end_hold))
   \<and> \<not> frame_flush_' (snd (next_frame Field_progressive example_end_hold))
   \<and> buffer_' (snd (next_frame Field_progressive example_end_hold)) = []
   \<and> \<not> loop_' (snd (next_frame Field_progressive example_end_hold))
   \<and> frame_duration_' (snd (next_frame Field_progressive example_end_hold)) = 40
   \<and> frame_time_' (snd (next_frame Field_progressive example_end_hold)) = 1000
   \<and> frame_time_' (snd (next_frame Field_progressive
                          (snd (next_frame Field_progressive example_end_hold)))) = 1000"
  by (simp add: next_frame_def example_end_hold_def Impl_new_def clip_end_def INT64_MAX_def
        int64_wrap_def)

text \<open>
  C2 (amended).  Once the end of the clip is flagged and no flush is pending, a
  \<open>next_frame\<close> call with the buffer empty returns the still of the held frame and
  signals no underflow; nothing changes but the timestamp, so the next such call is in
  the same situation.  When the 64-bit sums \<open>start + duration\<close> (for a duration other than
  the sentinel) and timestamp plus frame duration do not overflow, the timestamp advances
  by exactly one frame duration when it is below the effective end and the frame
  duration is not zero; with a zero frame duration it becomes the input duration; at or
  past the effective end it stays as it is.
\<close>

theorem C2_end_hold_freeze:
  "(buffer_eof_' s \<and> \<not> frame_flush_' s \<and> buffer_' s = [] \<longrightarrow>
      (\<exists>t. next_frame field s = (Still (frame_' s), s\<lparr>frame_time_' := t\<rparr>)))
   \<and> (buffer_eof_' s \<and> \<not> frame_flush_' s \<and> buffer_' s = [] \<and>
      (duration_' s = INT64_MAX \<or> in_int64 (start_' s + duration_' s)) \<and>
      in_int64 (frame_time_' s + frame_duration_' s) \<longrightarrow>
        next_frame field s =
          (Still (frame_' s),
           s\<lparr>frame_time_' :=
                (if frame_time_' s <
                      (if duration_' s = INT64_MAX then INT64_MAX
                       else start_' s + duration_' s)
                 then (if frame_duration_' s \<noteq> 0 then frame_time_' s + frame_duration_' s
                       else input_duration_' s)
                 else frame_time_' s)\<rparr>))"
proof (intro conjI impI)
  assume h: "buffer_eof_' s \<and> \<not> frame_flush_' s \<and> buffer_' s = []"
  then have "buffer_' s = [] \<or> (frame_flush_' s \<and> length (buffer_' s) < 4)" by blast
  note e = next_frame_starved [OF this, of field]
  show "\<exists>t. next_frame field s = (Still (frame_' s), s\<lparr>frame_time_' := t\<rparr>)"
  proof (cases "frame_time_' s < clip_end s")
    case True
    show ?thesis
    proof (cases "frame_duration_' s = 0")
      case True
      with \<open>frame_time_' s < clip_end s\<close> h
      have "next_frame field s = (Still (frame_' s), s\<lparr>frame_time_' := input_duration_' s\<rparr>)"
        by (simp add: e)
      then show ?thesis by blast
    next
      case False
      with \<open>frame_time_' s < clip_end s\<close> h
      have "next_frame field s =
              (Still (frame_' s),
               s\<lparr>frame_time_' := int64_wrap (frame_time_' s + frame_duration_' s)\<rparr>)"
        by (simp add: e)
      then show ?thesis by blast
    qed
  next
    case False
    with h have "next_frame field s = (Still (frame_' s), s\<lparr>frame_time_' := frame_time_' s\<rparr>)"
      by (simp add: e)
    then show ?thesis by blast
  qed
next
  assume h: "buffer_eof_' s \<and> \<not> frame_flush_' s \<and> buffer_' s = [] \<and>
      (duration_' s = INT64_MAX \<or> in_int64 (start_' s + duration_' s)) \<and>
      in_int64 (frame_time_' s + frame_duration_' s)"
  then have "buffer_' s = [] \<or> (frame_flush_' s \<and> length (buffer_' s) < 4)" by blast
  note e = next_frame_starved [OF this, of field]
  from h have ce: "clip_end s =
      (if duration_' s = INT64_MAX then INT64_MAX else start_' s + duration_' s)"
    by (auto simp add: clip_end_def int64_wrap_id)
  from h have w: "int64_wrap (frame_time_' s + frame_duration_' s)
                    = frame_time_' s + frame_duration_' s"
    by (simp add: int64_wrap_id)
  show "next_frame field s =
          (Still (frame_' s),
           s\<lparr>frame_time_' :=
                (if frame_time_' s <
                      (if duration_' s = INT64_MAX then INT64_MAX
                       else start_' s + duration_' s)
                 then (if frame_duration_' s \<noteq> 0 then frame_time_' s + frame_duration_' s
                       else input_duration_' s)
                 else frame_time_' s)\<rparr>)"
  proof (cases "frame_time_' s < clip_end s")
    case True
    then show ?thesis using h ce w
      by (cases "frame_duration_' s = 0") (simp_all add: e)
  next
    case False
    then show ?thesis using h ce by (simp add: e)
  qed
qed

theorem C2_end_hold_freeze_witness:
  "buffer_eof_' example_end_hold \<and> \<not> frame_flush_' example_end_hold
   \<and> buffer_' example_end_hold = []
   \<and> in_int64 (start_' example_end_hold + duration_' example_end_hold)
   \<and> in_int64 (frame_time_' example_end_hold + frame_duration_' example_end_hold)
   \<and> fst (next_frame Field_progressive example_end_hold) = Still (Picture 7)
   \<and> frame_time_' (snd (next_frame Field_progressive example_end_hold)) = 1000
   \<and> latency_' (snd (next_frame Field_progressive example_end_hold)) = latency_' example_end_hold"
proof -
  let ?s = example_end_hold
  have h: "buffer_eof_' ?s \<and> \<not> frame_flush_' ?s \<and> buffer_' ?s = []"
    by (simp add: example_end_hold_def Impl_new_def)
  have v: "frame_' ?s = Picture 7" "frame_time_' ?s = 960" "frame_duration_' ?s = 40"
          "start_' ?s = 0" "duration_' ?s = 1000"
    by (simp_all add: example_end_hold_def Impl_new_def)
  have r: "in_int64 (start_' ?s + duration_' ?s)" "in_int64 (frame_time_' ?s + frame_duration_' ?s)"
    by (simp_all add: v in_int64_def)
  from C2_end_hold_freeze [of ?s Field_progressive] h r
  have "next_frame Field_progressive ?s =
          (Still (frame_' ?s),
           ?s\<lparr>frame_time_' :=
                (if frame_time_' ?s <
                      (if duration_' ?s = INT64_MAX then INT64_MAX
                       else start_' ?s + duration_' ?s)
                 then (if frame_duration_' ?s \<noteq> 0 then frame_time_' ?s + frame_duration_' ?s
                       else input_duration_' ?s)
                 else frame_time_' ?s)\<rparr>)"
    by blast
  then have "fst (next_frame Field_progressive ?s) = Still (Picture 7)"
       "frame_time_' (snd (next_frame Field_progressive ?s)) = 1000"
       "latency_' (snd (next_frame Field_progressive ?s)) = latency_' ?s"
    by (simp_all add: v INT64_MAX_def)
  with h r show ?thesis by blast
qed

text \<open>
  Where the sum does overflow the effective end wraps around: with start 2 and duration
  \<open>INT64_MAX - 1\<close> it is \<open>- 2 ^ 63\<close>, and the timestamp of the end-hold example stays at
  960 ms.
\<close>

lemma end_hold_wrapped_end_example:
  "clip_end example_end_hold_wrapped = - (2 ^ 63)
   \<and> fst (next_frame Field_progressive example_end_hold_wrapped) = Still (Picture 7)
   \<and> frame_time_' (snd (next_frame Field_progressive example_end_hold_wrapped)) = 960"
  by (simp add: next_frame_def example_end_hold_wrapped_def example_end_hold_def Impl_new_def
        clip_end_def INT64_MAX_def int64_wrap_def)

section \<open>Scheduler: results\<close>

text \<open>
  C6 (as stated, refuted).  Looping is enabled, two frames have been produced and the
  sample source reports end-of-stream: the scheduler idles for 10 ms and does not seek.
  And in \<open>trimmed_run\<close>, with looping enabled and the clip trimmed to 40 ms, three frames
  with timestamps 0, 40 and 80 ms have been produced, far past the effective end; at its
  next check the scheduler neither seeks nor idles but converts the fourth sample,
  because the frame whose time it compares has been reset to \<open>Frame{}\<close> after each push.
\<close>

theorem C6_two_frames_do_not_loop:
  "loop_' example_loop_two \<and> frame_count_' example_loop_two = 2
   \<and> eof_' (input_' example_loop_two)
   \<and> run_check example_at_check example_loop_two =
       (Idle_sleep 10, example_at_check\<lparr>pc := Loop_top\<rparr>,
        example_loop_two\<lparr>buffer_eof_' := True\<rparr>)
   \<and> loop_' (snd (exec trimmed_run example_trimmed))
   \<and> frame_count_' (snd (exec trimmed_run example_trimmed)) = 3
   \<and> clip_end (snd (exec trimmed_run example_trimmed)) = 40
   \<and> map pts (buffer_' (snd (exec trimmed_run example_trimmed))) = [0, 40, 80]
   \<and> map duration (buffer_' (snd (exec trimmed_run example_trimmed))) = [40, 40, 40]
   \<and> pc (fst (exec trimmed_run example_trimmed)) = Clip_check
   \<and> fst (run_check (fst (exec trimmed_run example_trimmed))
                     (snd (exec trimmed_run example_trimmed))) = Frame_converted
   \<and> \<not> buffer_eof_' (snd (snd (run_check (fst (exec trimmed_run example_trimmed))
                                          (snd (exec trimmed_run example_trimmed)))))"
  by (simp add: run_check_def example_loop_two_def example_at_check_def Impl_new_def
        GstInput_new_def exec_def example_trimmed_def trimmed_run_def run_locals_new_def
        gst_world_new_def scheduler_step_def run_seek_def run_push_def new_video_sample_def
        try_push_def try_pop_video_def try_pop_def gst_sample_ref_def buffer_has_room_def
        clip_end_def INT64_MAX_def int64_wrap_def Frame_empty_def Let_def split_def)

text \<open>
  C6 (amended).  When the scheduler, at its end-of-clip check, finds the sample source
  at end-of-stream, it flags the end of the clip; then, if looping is enabled and more
  than 2 frames have been produced since the producer was created (the counter is never
  reset), it seeks the input to the start, resets its frame, marks a flush pending and
  restarts the loop; otherwise it sleeps 10 ms and restarts the loop, and nothing but the
  flag has changed.  The seek of the input, when there is a pipeline, empties both
  sample queues, clears the end-of-stream flag, and asks the pipeline for the start in
  nanoseconds (0 for a negative start).
\<close>

theorem C6_end_of_stream_loops_or_idles:
  "(eof_' (input_' s) \<longrightarrow>
       (if loop_' s \<and> frame_count_' s > 2
        then run_check l s =
               (Loop_restart (start_' s),
                l\<lparr>pc := Loop_top, run_frame := Frame_empty\<rparr>,
                s\<lparr>buffer_eof_' := True,
                  input_' := fst (GstInput_seek (start_' s) True (input_' s, world s)),
                  world := snd (GstInput_seek (start_' s) True (input_' s, world s)),
                  frame_flush_' := True\<rparr>)
        else run_check l s =
               (Idle_sleep 10, l\<lparr>pc := Loop_top\<rparr>, s\<lparr>buffer_eof_' := True\<rparr>)))
   \<and> (pipeline_' (input_' s) \<and> in_int64 (start_' s * 1000000) \<longrightarrow>
        pipeline_seek_pos (fst (GstInput_seek (start_' s) True (input_' s, world s)))
          = Some (if start_' s < 0 then 0 else start_' s * 1000000) \<and>
        video_buffer_' (fst (GstInput_seek (start_' s) True (input_' s, world s))) = [] \<and>
        audio_buffer_' (fst (GstInput_seek (start_' s) True (input_' s, world s))) = [] \<and>
        \<not> eof_' (fst (GstInput_seek (start_' s) True (input_' s, world s))))"
proof (intro conjI impI)
  assume h: "eof_' (input_' s)"
  show "if loop_' s \<and> frame_count_' s > 2
        then run_check l s =
               (Loop_restart (start_' s),
                l\<lparr>pc := Loop_top, run_frame := Frame_empty\<rparr>,
                s\<lparr>buffer_eof_' := True,
                  input_' := fst (GstInput_seek (start_' s) True (input_' s, world s)),
                  world := snd (GstInput_seek (start_' s) True (input_' s, world s)),
                  frame_flush_' := True\<rparr>)
        else run_check l s =
               (Idle_sleep 10, l\<lparr>pc := Loop_top\<rparr>, s\<lparr>buffer_eof_' := True\<rparr>)"
  proof (cases "loop_' s \<and> frame_count_' s > 2")
    case True
    then show ?thesis using h by (simp add: run_check_def split_def Let_def)
  next
    case False
    then show ?thesis using h by (auto simp add: run_check_def)
  qed
next
  assume h: "pipeline_' (input_' s) \<and> in_int64 (start_' s * 1000000)"
  let ?r = "GstInput_seek (start_' s) True (input_' s, world s)"
  have w: "int64_wrap ((if start_' s < 0 then 0 else start_' s) * 1000000)
           = (if start_' s < 0 then 0 else start_' s * 1000000)"
    using h by (simp add: int64_wrap_id) (simp add: int64_wrap_def)
  from h w show "pipeline_seek_pos (fst ?r) = Some (if start_' s < 0 then 0 else start_' s * 1000000)"
    by (simp add: GstInput_seek_def split_def Let_def)
  from h show "video_buffer_' (fst ?r) = []"
    using GstInput_seek_releases_queued [of "input_' s" "start_' s" "world s"] by blast
  from h show "audio_buffer_' (fst ?r) = []"
    using GstInput_seek_releases_queued [of "input_' s" "start_' s" "world s"] by blast
  from h show "\<not> eof_' (fst ?r)"
    by (simp add: GstInput_seek_def split_def Let_def)
qed

theorem C6_end_of_stream_loops_or_idles_witness:
  "eof_' (input_' example_loop_three)
   \<and> loop_' example_loop_three \<and> frame_count_' example_loop_three > 2
   \<and> pipeline_' (input_' example_loop_three)
   \<and> in_int64 (start_' example_loop_three * 1000000)
   \<and> fst (run_check example_at_check example_loop_three) = Loop_restart 0
   \<and> pc (fst (snd (run_check example_at_check example_loop_three))) = Loop_top
   \<and> frame_flush_' (snd (snd (run_check example_at_check example_loop_three)))
   \<and> pipeline_seek_pos (input_' (snd (snd (run_check example_at_check example_loop_three))))
       = Some 0
   \<and> \<not> eof_' (input_' (snd (snd (run_check example_at_check example_loop_three))))"
proof -
  let ?s = example_loop_three
  have h: "eof_' (input_' ?s)" "loop_' ?s" "frame_count_' ?s > 2" "start_' ?s = 0"
    "pipeline_' (input_' ?s)"
    by (simp_all add: example_loop_three_def example_loop_two_def Impl_new_def GstInput_new_def)
  have r: "in_int64 (start_' ?s * 1000000)"
    by (simp add: h in_int64_def)
  note t = C6_end_of_stream_loops_or_idles [of ?s example_at_check]
  from t h
  have e: "run_check example_at_check ?s =
               (Loop_restart (start_' ?s),
                example_at_check\<lparr>pc := Loop_top, run_frame := Frame_empty\<rparr>,
                ?s\<lparr>buffer_eof_' := True,
                  input_' := fst (GstInput_seek (start_' ?s) True (input_' ?s, world ?s)),
                  world := snd (GstInput_seek (start_' ?s) True (input_' ?s, world ?s)),
                  frame_flush_' := True\<rparr>)"
    by simp
  from t h r
  have p: "pipeline_seek_pos (fst (GstInput_seek (start_' ?s) True (input_' ?s, world ?s)))
             = Some (if start_' ?s < 0 then 0 else start_' ?s * 1000000)"
    "\<not> eof_' (fst (GstInput_seek (start_' ?s) True (input_' ?s, world ?s)))"
    by blast+
  have "fst (run_check example_at_check ?s) = Loop_restart 0"
      "pc (fst (snd (run_check example_at_check ?s))) = Loop_top"
      "frame_flush_' (snd (snd (run_check example_at_check ?s)))"
      "pipeline_seek_pos (input_' (snd (snd (run_check example_at_check ?s)))) = Some 0"
      "\<not> eof_' (input_' (snd (snd (run_check example_at_check ?s))))"
    using p by (simp_all add: e h)
  with h r show ?thesis by blast
qed

section \<open>What one step can change\<close>

lemma signal_underflow_fields:
  "buffer_' (snd (signal_underflow s)) = buffer_' s"
  "buffer_capacity_' (snd (signal_underflow s)) = buffer_capacity_' s"
  "seek_' (snd (signal_underflow s)) = seek_' s"
  "frame_count_' (snd (signal_underflow s)) = frame_count_' s"
  by (simp_all add: signal_underflow_def)

lemma next_frame_fields:
  "buffer_capacity_' (snd (next_frame field s)) = buffer_capacity_' s"
  "seek_' (snd (next_frame field s)) = seek_' s"
  "frame_count_' (snd (next_frame field s)) = frame_count_' s"
  "buffer_' (snd (next_frame field s)) = buffer_' s \<or>
   buffer_' (snd (next_frame field s)) = tl (buffer_' s)"
proof -
  let ?starved = "buffer_' s = [] \<or> (frame_flush_' s \<and> length (buffer_' s) < 4)"
  let ?wrong = "format_field_count s = 2 \<and>
              ((field = Field_a \<and> \<not> (cpp_rem (frame_count (buffer_' s ! 0)) 2 = 0)) \<or>
               (field = Field_b \<and> cpp_rem (frame_count (buffer_' s ! 0)) 2 = 0))"
  consider (starved) "?starved" | (wrong) "\<not> ?starved" "?wrong" | (pop) "\<not> ?starved" "\<not> ?wrong"
    by blast
  then have "buffer_capacity_' (snd (next_frame field s)) = buffer_capacity_' s \<and>
    seek_' (snd (next_frame field s)) = seek_' s \<and>
    frame_count_' (snd (next_frame field s)) = frame_count_' s \<and>
    (buffer_' (snd (next_frame field s)) = buffer_' s \<or>
     buffer_' (snd (next_frame field s)) = tl (buffer_' s))"
  proof cases
    case starved
    show ?thesis
      by (simp add: next_frame_starved [OF starved] signal_underflow_fields Let_def)
  next
    case wrong
    show ?thesis
      by (simp add: next_frame_wrong_field [OF wrong] signal_underflow_fields)
  next
    case pop
    show ?thesis
      by (simp add: next_frame_pop [OF pop])
  qed
  then show "buffer_capacity_' (snd (next_frame field s)) = buffer_capacity_' s"
  "seek_' (snd (next_frame field s)) = seek_' s"
  "frame_count_' (snd (next_frame field s)) = frame_count_' s"
  "buffer_' (snd (next_frame field s)) = buffer_' s \<or>
   buffer_' (snd (next_frame field s)) = tl (buffer_' s)"
    by blast+
qed

lemma prev_frame_fields:
  "buffer_' (snd (prev_frame field s)) = buffer_' s"
  "buffer_capacity_' (snd (prev_frame field s)) = buffer_capacity_' s"
  "seek_' (snd (prev_frame field s)) = seek_' s"
  "frame_count_' (snd (prev_frame field s)) = frame_count_' s"
  by (simp_all add: prev_frame_def Let_def)

lemma run_seek_fields:
  "buffer_' (snd (snd (run_seek l s))) = buffer_' s"
  "buffer_capacity_' (snd (snd (run_seek l s))) = buffer_capacity_' s"
  "seek_' (snd (snd (run_seek l s))) = - 1"
  "frame_count_' (snd (snd (run_seek l s))) = frame_count_' s"
  "pc (fst (snd (run_seek l s))) \<noteq> Buffer_wait"
  by (simp_all add: run_seek_def Let_def split_def)

lemma run_check_fields:
  "buffer_' (snd (snd (run_check l s))) = buffer_' s"
  "buffer_capacity_' (snd (snd (run_check l s))) = buffer_capacity_' s"
  "seek_' (snd (snd (run_check l s))) = seek_' s"
  "frame_count_' s \<le> frame_count_' (snd (snd (run_check l s)))"
  by (simp_all add: run_check_def Let_def split_def split: option.split)

lemma run_check_new_frame:
  "pc (fst (snd (run_check l s))) = Buffer_wait \<Longrightarrow>
     frame_count (run_frame (fst (snd (run_check l s)))) = frame_count_' s \<and>
     frame_count_' (snd (snd (run_check l s))) = frame_count_' s + 1"
  by (auto simp add: run_check_def Let_def split_def split: option.splits if_splits)

lemma scheduler_step_cases:
  assumes "scheduler_step (l, s) = (l', s')"
  shows "buffer_capacity_' s' = buffer_capacity_' s \<and> frame_count_' s \<le> frame_count_' s' \<and>
     ((pc l \<noteq> Buffer_wait \<and> buffer_' s' = buffer_' s \<and>
       (pc l = Loop_top \<longrightarrow> pc l' \<noteq> Buffer_wait) \<and>
       (pc l = Clip_check \<longrightarrow> seek_' s' = seek_' s) \<and>
       (pc l' = Buffer_wait \<longrightarrow>
          frame_count (run_frame l') = frame_count_' s \<and>
          frame_count_' s' = frame_count_' s + 1))
      \<or> (pc l = Buffer_wait \<and> \<not> buffer_has_room s \<and> l' = l \<and> s' = s)
      \<or> (pc l = Buffer_wait \<and> buffer_has_room s \<and> seek_' s = - 1 \<and> pc l' = Loop_top \<and>
          s' = s\<lparr>buffer_' := buffer_' s @ [run_frame l]\<rparr>)
      \<or> (pc l = Buffer_wait \<and> buffer_has_room s \<and> seek_' s \<noteq> - 1 \<and> pc l' = Loop_top \<and>
          s' = s))"
proof (cases "pc l")
  case Loop_top
  with assms have e: "l' = fst (snd (run_seek l s))" "s' = snd (snd (run_seek l s))"
    by (simp_all add: scheduler_step_def)
  show ?thesis using Loop_top by (simp add: e run_seek_fields)
next
  case Clip_check
  with assms have e: "l' = fst (snd (run_check l s))" "s' = snd (snd (run_check l s))"
    by (simp_all add: scheduler_step_def)
  show ?thesis using Clip_check run_check_new_frame [of l s]
    by (simp add: e run_check_fields)
next
  case Buffer_wait
  show ?thesis
  proof (cases "buffer_has_room s")
    case False
    with assms Buffer_wait show ?thesis
      by (simp add: scheduler_step_def run_push_def)
  next
    case True
    with assms Buffer_wait show ?thesis
      by (cases "seek_' s = - 1") (auto simp add: scheduler_step_def run_push_def)
  qed
qed

lemma other_step_cases:
  assumes "e \<noteq> Scheduler" and "step e (l, s) = (l', s')"
  shows "l' = l \<and> buffer_capacity_' s' = buffer_capacity_' s \<and>
     frame_count_' s' = frame_count_' s \<and>
     (buffer_' s' = buffer_' s \<or> buffer_' s' = tl (buffer_' s) \<or> buffer_' s' = []) \<and>
     (seek_' s' = seek_' s \<or> e = Seek_store (seek_' s'))"
proof (cases e)
  case Scheduler
  with assms show ?thesis by simp
next
  case (New_video_sample p)
  with assms show ?thesis by (auto simp add: split_def)
next
  case (New_audio_sample p)
  with assms show ?thesis by (auto simp add: split_def)
next
  case End_of_stream
  with assms show ?thesis by auto
next
  case (Next_frame field)
  with assms have "l' = l" "s' = snd (next_frame field s)" by auto
  then show ?thesis using next_frame_fields [of field s] by auto
next
  case (Prev_frame field)
  with assms have "l' = l" "s' = snd (prev_frame field s)" by auto
  then show ?thesis by (simp add: prev_frame_fields)
next
  case (Seek_store t)
  with assms show ?thesis by (auto simp add: seek_store_def)
next
  case Seek_flush
  with assms show ?thesis by (auto simp add: seek_flush_def)
next
  case (Set_loop v)
  with assms show ?thesis by (auto simp add: loop_def)
next
  case (Set_start v)
  with assms show ?thesis by (auto simp add: start_def)
next
  case (Set_duration v)
  with assms show ?thesis by (auto simp add: set_duration_def)
qed

section \<open>Reachable states: the properties are kept by every step\<close>

lemma tl_subset: "set (tl xs) \<subseteq> set xs"
  by (cases xs) auto

lemma step_capacity:
  "buffer_capacity_' (snd (step e x)) = buffer_capacity_' (snd x)"
proof (cases "e = Scheduler")
  case True
  obtain l s where x: "x = (l, s)" by (cases x)
  obtain l' s' where r: "scheduler_step (l, s) = (l', s')" by (cases "scheduler_step (l, s)")
  from scheduler_step_cases [OF r] show ?thesis by (simp add: True x r)
next
  case False
  obtain l s where x: "x = (l, s)" by (cases x)
  obtain l' s' where r: "step e (l, s) = (l', s')" by (cases "step e (l, s)")
  from other_step_cases [OF False r] show ?thesis by (simp add: x r)
qed

lemma step_within_capacity:
  assumes cap: "0 \<le> buffer_capacity_' (snd x)" "buffer_capacity_' (snd x) < 2 ^ 64"
    and inv: "within_capacity x"
  shows "within_capacity (step e x)"
proof -
  obtain l s where x: "x = (l, s)" by (cases x)
  obtain l' s' where r: "step e (l, s) = (l', s')" by (cases "step e (l, s)")
  from inv have len: "int (length (buffer_' s)) \<le> buffer_capacity_' s"
    by (simp add: within_capacity_def x)
  from cap have m: "buffer_capacity_' s mod 2 ^ 64 = buffer_capacity_' s"
    by (simp add: x)
  have "int (length (buffer_' s')) \<le> buffer_capacity_' s'"
  proof (cases "e = Scheduler")
    case True
    with r have "scheduler_step (l, s) = (l', s')" by simp
    from scheduler_step_cases [OF this] len m show ?thesis
      by (auto simp add: buffer_has_room_def)
  next
    case False
    from other_step_cases [OF False r] len show ?thesis by auto
  qed
  then show ?thesis by (simp add: within_capacity_def x r)
qed

lemma exec_capacity:
  "buffer_capacity_' (snd (exec evs x)) = buffer_capacity_' (snd x)"
  unfolding exec_def by (induction evs arbitrary: x) (simp_all add: step_capacity)

lemma exec_within_capacity:
  "0 \<le> buffer_capacity_' (snd x) \<Longrightarrow> buffer_capacity_' (snd x) < 2 ^ 64 \<Longrightarrow>
   within_capacity x \<Longrightarrow> within_capacity (exec evs x)"
  unfolding exec_def
proof (induction evs arbitrary: x)
  case Nil
  then show ?case by simp
next
  case (Cons e evs)
  have "within_capacity (fold step evs (step e x))"
    using Cons.prems by (intro Cons.IH) (simp_all add: step_capacity step_within_capacity)
  then show ?case by simp
qed

lemma step_frame_count_mono:
  "frame_count_' (snd x) \<le> frame_count_' (snd (step e x))"
proof (cases "e = Scheduler")
  case True
  obtain l s where x: "x = (l, s)" by (cases x)
  obtain l' s' where r: "scheduler_step (l, s) = (l', s')" by (cases "scheduler_step (l, s)")
  from scheduler_step_cases [OF r] show ?thesis by (simp add: True x r)
next
  case False
  obtain l s where x: "x = (l, s)" by (cases x)
  obtain l' s' where r: "step e (l, s) = (l', s')" by (cases "step e (l, s)")
  from other_step_cases [OF False r] show ?thesis by (simp add: x r)
qed

lemma step_frames_numbered:
  assumes "frames_numbered x"
  shows "frames_numbered (step e x)"
proof -
  obtain l s where x: "x = (l, s)" by (cases x)
  obtain l' s' where r: "step e (l, s) = (l', s')" by (cases "step e (l, s)")
  from assms have b: "\<forall>f \<in> set (buffer_' s). frame_count f < frame_count_' s"
    and h: "pc l = Buffer_wait \<longrightarrow> frame_count (run_frame l) < frame_count_' s"
    by (simp_all add: frames_numbered_def pending_def x)
  have "(\<forall>f \<in> set (buffer_' s'). frame_count f < frame_count_' s') \<and>
        (pc l' = Buffer_wait \<longrightarrow> frame_count (run_frame l') < frame_count_' s')"
  proof (cases "e = Scheduler")
    case True
    with r have "scheduler_step (l, s) = (l', s')" by simp
    note sc = scheduler_step_cases [OF this]
    from sc have mono: "frame_count_' s \<le> frame_count_' s'" by blast
    from b mono have b': "\<forall>f \<in> set (buffer_' s). frame_count f < frame_count_' s'"
      by fastforce
    from h mono have h': "pc l = Buffer_wait \<longrightarrow> frame_count (run_frame l) < frame_count_' s'"
      by fastforce
    from sc b' h' show ?thesis by auto
  next
    case False
    from other_step_cases [OF False r]
    have l: "l' = l" and c: "frame_count_' s' = frame_count_' s"
      and bb: "buffer_' s' = buffer_' s \<or> buffer_' s' = tl (buffer_' s) \<or> buffer_' s' = []"
      by blast+
    from bb have "set (buffer_' s') \<subseteq> set (buffer_' s)"
      using tl_subset [of "buffer_' s"] by auto
    with b h l c show ?thesis by auto
  qed
  then show ?thesis by (simp add: frames_numbered_def pending_def x r)
qed

lemma exec_frames_numbered:
  "frames_numbered x \<Longrightarrow> frames_numbered (exec evs x)"
  unfolding exec_def by (induction evs arbitrary: x) (simp_all add: step_frames_numbered)

lemma step_hand_fresh:
  assumes "hand_fresh n x" and "e \<noteq> Seek_store (- 1)"
  shows "hand_fresh n (step e x)"
proof -
  obtain l s where x: "x = (l, s)" by (cases x)
  obtain l' s' where r: "step e (l, s) = (l', s')" by (cases "step e (l, s)")
  from assms(1) have h: "pc l = Buffer_wait \<longrightarrow> n \<le> frame_count (run_frame l) \<or> seek_' s \<noteq> - 1"
    and c: "n \<le> frame_count_' s"
    by (simp_all add: hand_fresh_def x)
  have "(pc l' = Buffer_wait \<longrightarrow> n \<le> frame_count (run_frame l') \<or> seek_' s' \<noteq> - 1) \<and>
        n \<le> frame_count_' s'"
  proof (cases "e = Scheduler")
    case True
    with r have "scheduler_step (l, s) = (l', s')" by simp
    from scheduler_step_cases [OF this] h c show ?thesis by auto
  next
    case False
    from other_step_cases [OF False r] h c assms(2) show ?thesis by auto
  qed
  then show ?thesis by (simp add: hand_fresh_def x r)
qed

lemma step_buffer_fresh:
  assumes "hand_fresh n x" and "buffer_fresh n x"
  shows "buffer_fresh n (step e x)"
proof -
  obtain l s where x: "x = (l, s)" by (cases x)
  obtain l' s' where r: "step e (l, s) = (l', s')" by (cases "step e (l, s)")
  from assms(1) have h: "pc l = Buffer_wait \<longrightarrow> n \<le> frame_count (run_frame l) \<or> seek_' s \<noteq> - 1"
    by (simp add: hand_fresh_def x)
  from assms(2) have b: "\<forall>f \<in> set (buffer_' s). n \<le> frame_count f"
    by (simp add: buffer_fresh_def x)
  have "\<forall>f \<in> set (buffer_' s'). n \<le> frame_count f"
  proof (cases "e = Scheduler")
    case True
    with r have "scheduler_step (l, s) = (l', s')" by simp
    from scheduler_step_cases [OF this] h b show ?thesis by auto
  next
    case False
    from other_step_cases [OF False r]
    have "buffer_' s' = buffer_' s \<or> buffer_' s' = tl (buffer_' s) \<or> buffer_' s' = []"
      by blast
    then have "set (buffer_' s') \<subseteq> set (buffer_' s)"
      using tl_subset [of "buffer_' s"] by auto
    with b show ?thesis by auto
  qed
  then show ?thesis by (simp add: buffer_fresh_def x r)
qed

lemma exec_hand_fresh:
  "hand_fresh n x \<Longrightarrow> Seek_store (- 1) \<notin> set evs \<Longrightarrow> hand_fresh n (exec evs x)"
  unfolding exec_def
proof (induction evs arbitrary: x)
  case Nil
  then show ?case by simp
next
  case (Cons e evs)
  from Cons.prems have "e \<noteq> Seek_store (- 1)" "Seek_store (- 1) \<notin> set evs" by auto
  with Cons.prems have "hand_fresh n (fold step evs (step e x))"
    by (intro Cons.IH) (simp_all add: step_hand_fresh)
  then show ?case by simp
qed

lemma exec_fresh:
  "hand_fresh n x \<Longrightarrow> buffer_fresh n x \<Longrightarrow> Seek_store (- 1) \<notin> set evs \<Longrightarrow>
   buffer_fresh n (exec evs x)"
  unfolding exec_def
proof (induction evs arbitrary: x)
  case Nil
  then show ?case by simp
next
  case (Cons e evs)
  from Cons.prems have "e \<noteq> Seek_store (- 1)" "Seek_store (- 1) \<notin> set evs" by auto
  with Cons.prems have "buffer_fresh n (fold step evs (step e x))"
    by (intro Cons.IH) (simp_all add: step_hand_fresh step_buffer_fresh)
  then show ?case by simp
qed

text \<open>
  At every end-of-clip check of a run the scheduler's frame is \<open>Frame{}\<close>, so the time
  it compares with the effective end is 0.
\<close>

lemma step_hand_empty:
  assumes "hand_empty x"
  shows "hand_empty (step e x)"
proof -
  obtain l s where x: "x = (l, s)" by (cases x)
  from assms have h: "pc l \<noteq> Buffer_wait \<longrightarrow> run_frame l = Frame_empty"
    by (simp add: hand_empty_def x)
  show ?thesis
  proof (cases "e = Scheduler")
    case True
    show ?thesis
    proof (cases "pc l")
      case Loop_top
      with h show ?thesis
        by (simp add: True x hand_empty_def scheduler_step_def run_seek_def Let_def split_def)
    next
      case Clip_check
      with h show ?thesis
        by (simp add: True x hand_empty_def scheduler_step_def run_check_def Let_def split_def
              split: option.split)
    next
      case Buffer_wait
      then show ?thesis
        by (simp add: True x hand_empty_def scheduler_step_def run_push_def)
    qed
  next
    case False
    obtain l' s' where r: "step e (l, s) = (l', s')" by (cases "step e (l, s)")
    from other_step_cases [OF False r] have "l' = l" by blast
    with h show ?thesis by (simp add: hand_empty_def x r)
  qed
qed

lemma exec_hand_empty: "hand_empty x \<Longrightarrow> hand_empty (exec evs x)"
  unfolding exec_def by (induction evs arbitrary: x) (simp_all add: step_hand_empty)

lemma time_zero_at_check:
  assumes "exec evs (run_locals_new, Impl_new fc fd capacity ok st sk du lo) = (l, s)"
    and "pc l = Clip_check"
  shows "run_frame l = Frame_empty"
    and "buffer_eof_' (snd (snd (run_check l s))) = (eof_' (input_' s) \<or> clip_end s \<le> 0)"
proof -
  have "hand_empty (run_locals_new, Impl_new fc fd capacity ok st sk du lo)"
    by (simp add: hand_empty_def run_locals_new_def)
  then have "hand_empty (l, s)"
    using exec_hand_empty [of _ evs] assms(1) by metis
  with assms(2) show e: "run_frame l = Frame_empty"
    by (simp add: hand_empty_def)
  show "buffer_eof_' (snd (snd (run_check l s))) = (eof_' (input_' s) \<or> clip_end s \<le> 0)"
    by (simp add: run_check_def e Frame_empty_def int64_wrap_def Let_def split_def
          split: option.split)
qed


section \<open>Reachable states: results\<close>

lemmas model_defs =
  exec_def example_progressive_def run_locals_new_def Impl_new_def GstInput_new_def
  gst_world_new_def scheduler_step_def run_seek_def run_check_def run_push_def
  new_video_sample_def try_push_def try_pop_video_def try_pop_def gst_sample_ref_def
  gst_sample_unref_def buffer_has_room_def clip_end_def INT64_MAX_def Frame_empty_def
  prev_frame_def seek_store_def seek_flush_def stale_frame_def GstInput_seek_def
  set_tag_def int64_wrap_def Let_def split_def

text \<open>
  C3.  From the state the constructor builds, with a capacity that is not negative,
  whatever the decode graph, the monitor thread, the production clock and the control
  calls do and however the scheduler's steps fall in between, the playout buffer never
  holds more frames than its capacity.  While the buffer has no room the scheduler's push
  does not happen and its step changes nothing: it stays blocked.  When there is room
  the push appends the frame or, with a seek request stored, leaves the buffer as it is:
  no buffered frame is removed.  And when \<open>next_frame\<close> takes a frame out of a buffer that was within
  its capacity, the buffer has room again.
\<close>

theorem C3_playout_buffer_bounded:
  "(0 \<le> capacity \<and> capacity < 2 ^ 31 \<longrightarrow>
      int (length (buffer_' (snd (exec evs
             (run_locals_new, Impl_new fc fd capacity ok st sk du lo))))) \<le> capacity)
   \<and> (\<not> buffer_has_room s \<longrightarrow>
        run_push l s = None \<and> (pc l = Buffer_wait \<longrightarrow> step Scheduler (l, s) = (l, s)))
   \<and> (buffer_has_room s \<longrightarrow>
        run_push l s =
          Some (if seek_' s = - 1
                then (Pushed, l\<lparr>pc := Loop_top, run_frame := Frame_empty\<rparr>,
                      s\<lparr>buffer_' := buffer_' s @ [run_frame l]\<rparr>)
                else (Push_skipped, l\<lparr>pc := Loop_top, run_frame := Frame_empty\<rparr>, s)))
   \<and> (0 \<le> buffer_capacity_' s \<and> buffer_capacity_' s < 2 ^ 31 \<and>
      int (length (buffer_' s)) \<le> buffer_capacity_' s \<and>
      buffer_' (snd (next_frame field s)) \<noteq> buffer_' s \<longrightarrow>
        buffer_has_room (snd (next_frame field s)))"
proof (intro conjI impI)
  assume cap: "0 \<le> capacity \<and> capacity < 2 ^ 31"
  let ?x = "(run_locals_new, Impl_new fc fd capacity ok st sk du lo)"
  have c: "buffer_capacity_' (Impl_new fc fd capacity ok st sk du lo) = capacity"
    and b: "buffer_' (Impl_new fc fd capacity ok st sk du lo) = []"
    by (simp_all add: Impl_new_def)
  from cap have "capacity < 2 ^ 64"
    by (simp add: order_less_trans [where y = "2 ^ 31"])
  with cap have "within_capacity (exec evs ?x)"
    by (intro exec_within_capacity) (simp_all add: c b within_capacity_def)
  then show "int (length (buffer_' (snd (exec evs ?x)))) \<le> capacity"
    by (simp add: within_capacity_def exec_capacity c)
next
  assume "\<not> buffer_has_room s"
  then show "run_push l s = None" by (simp add: run_push_def)
next
  assume "\<not> buffer_has_room s" and "pc l = Buffer_wait"
  then show "step Scheduler (l, s) = (l, s)"
    by (simp add: scheduler_step_def run_push_def)
next
  assume "buffer_has_room s"
  then show "run_push l s =
          Some (if seek_' s = - 1
                then (Pushed, l\<lparr>pc := Loop_top, run_frame := Frame_empty\<rparr>,
                      s\<lparr>buffer_' := buffer_' s @ [run_frame l]\<rparr>)
                else (Push_skipped, l\<lparr>pc := Loop_top, run_frame := Frame_empty\<rparr>, s))"
    by (simp add: run_push_def)
next
  assume h: "0 \<le> buffer_capacity_' s \<and> buffer_capacity_' s < 2 ^ 31 \<and>
      int (length (buffer_' s)) \<le> buffer_capacity_' s \<and>
      buffer_' (snd (next_frame field s)) \<noteq> buffer_' s"
  then have ch: "buffer_' (snd (next_frame field s)) \<noteq> buffer_' s" by blast
  note r = next_frame_changed_buffer [OF ch]
  from h have "buffer_capacity_' s < 2 ^ 64"
    by (simp add: order_less_trans [where y = "2 ^ 31"])
  with h have m: "buffer_capacity_' s mod 2 ^ 64 = buffer_capacity_' s" by simp
  from r(1) have "length (tl (buffer_' s)) < length (buffer_' s)" by (cases "buffer_' s") simp_all
  with h have "int (length (tl (buffer_' s))) < buffer_capacity_' s" by linarith
  then show "buffer_has_room (snd (next_frame field s))"
    by (simp only: buffer_has_room_def r(3) next_frame_fields(1) m)
qed

theorem C3_playout_buffer_bounded_witness:
  "(0::int) \<le> 6 \<and> (6::int) < 2 ^ 31
   \<and> int (length (buffer_' (snd (exec stale_before example_progressive)))) \<le> 6
   \<and> \<not> buffer_has_room example_full
   \<and> run_push example_waiting example_full = None
   \<and> step Scheduler (example_waiting, example_full) = (example_waiting, example_full)
   \<and> buffer_' (snd (next_frame Field_a example_full)) \<noteq> buffer_' example_full
   \<and> buffer_has_room (snd (next_frame Field_a example_full))
   \<and> buffer_' (snd (snd (the (run_push example_waiting (snd (next_frame Field_a example_full))))))
     = map (example_frame 7) [1, 2, 3, 4, 5, 6]"
proof -
  note t = C3_playout_buffer_bounded
  have full: "\<not> buffer_has_room example_full"
    by (simp add: buffer_has_room_def example_full_def example_impl_def Impl_new_def)
  have pcw: "pc example_waiting = Buffer_wait"
    by (simp add: example_waiting_def)
  have cap: "0 \<le> buffer_capacity_' example_full" "buffer_capacity_' example_full < 2 ^ 31"
    "int (length (buffer_' example_full)) \<le> buffer_capacity_' example_full"
    by (simp_all add: example_full_def example_impl_def Impl_new_def)
  have a: "\<not> (buffer_' example_full = [] \<or>
              (frame_flush_' example_full \<and> length (buffer_' example_full) < 4))"
    by (simp add: example_full_def)
  have b: "\<not> (format_field_count example_full = 2 \<and>
        ((Field_a = Field_a \<and> \<not> (cpp_rem (frame_count (buffer_' example_full ! 0)) 2 = 0)) \<or>
         (Field_a = Field_b \<and> cpp_rem (frame_count (buffer_' example_full ! 0)) 2 = 0)))"
    by (simp add: example_full_def example_frame_def cpp_rem_def)
  have "buffer_' (snd (next_frame Field_a example_full)) = tl (buffer_' example_full)"
    by (simp add: next_frame_pop [OF a b])
  then have popped: "buffer_' (snd (next_frame Field_a example_full)) = map (example_frame 7) [1, 2, 3, 4, 5]"
    by (simp add: example_full_def)
  then have ch: "buffer_' (snd (next_frame Field_a example_full)) \<noteq> buffer_' example_full"
    by (simp add: example_full_def)
  have sk: "seek_' (snd (next_frame Field_a example_full)) = - 1"
    by (simp add: next_frame_fields example_full_def example_impl_def Impl_new_def)
  from t [of 6 stale_before 1 40 True None None None None example_full example_waiting Field_a]
  have one: "int (length (buffer_' (snd (exec stale_before example_progressive)))) \<le> 6"
    by (simp add: example_progressive_def)
  from t [of 6 stale_before 1 40 True None None None None example_full example_waiting Field_a] full pcw
  have two: "run_push example_waiting example_full = None"
    "step Scheduler (example_waiting, example_full) = (example_waiting, example_full)"
    by blast+
  from t [of 6 stale_before 1 40 True None None None None example_full example_waiting Field_a] cap ch
  have room: "buffer_has_room (snd (next_frame Field_a example_full))"
    by blast
  have "buffer_' (snd (snd (the (run_push example_waiting (snd (next_frame Field_a example_full))))))
     = map (example_frame 7) [1, 2, 3, 4, 5, 6]"
    using room sk by (simp add: run_push_def popped example_waiting_def)
  with one two full ch room show ?thesis by simp
qed

text \<open>
  C4 (what the code does).  In the run \<open>stale_before\<close> the buffer holds one frame
  (frame 0) and the scheduler holds frame 1, converted and about to be pushed.
  \<open>seek(-1)\<close> stores \<open>-1\<close>, which is also the value that means "no seek pending", and
  clears the buffer.  The scheduler then pushes frame 1, and the next \<open>next_frame\<close>
  returns it: a frame created before the seek is delivered after the seek's flush.
\<close>

theorem C4_seek_minus_one_delivers_stale_frame:
  "length (buffer_' (snd (exec stale_before example_progressive))) = 1
   \<and> pc (fst (exec stale_before example_progressive)) = Buffer_wait
   \<and> run_frame (fst (exec stale_before example_progressive)) = stale_frame
   \<and> stale_frame \<in> pending (exec stale_before example_progressive)
   \<and> buffer_' (snd (exec (stale_before @ stale_seek) example_progressive)) = []
   \<and> buffer_' (snd (exec (stale_before @ stale_seek @ stale_after) example_progressive))
       = [stale_frame]
   \<and> fst (next_frame Field_progressive
            (snd (exec (stale_before @ stale_seek @ stale_after) example_progressive)))
       = frame stale_frame
   \<and> buffer_' (snd (next_frame Field_progressive
            (snd (exec (stale_before @ stale_seek @ stale_after) example_progressive))))
       = []"
  by (simp add: model_defs stale_before_def stale_seek_def stale_after_def next_frame_def
        pending_def)

text \<open>
  Every other seek time is safe.  Take any state the producer can reach, with its
  pending frames (those buffered and the one the scheduler may hold), and a seek to any
  time other than \<open>-1\<close>: the request is stored, anything may happen, the buffer is
  cleared, and anything may happen again, as long as no \<open>seek(-1)\<close> is issued meanwhile.
  Every frame pending at the seek has a sequence number below the counter at the seek,
  and whenever a \<open>next_frame\<close> after the flush takes a frame out of the buffer and
  returns it, that frame has a sequence number of at least that counter, so it is none
  of those frames.  The seek is synchronous for the buffer: when \<open>seek\<close> returns the
  buffer is empty and the request is stored.  With a request stored and room in the
  buffer, the scheduler's push step skips the frame in its hand.
\<close>

lemma other_seek_delivers_no_stale_frame:
  assumes reach: "exec before (run_locals_new, Impl_new fc fd capacity ok st sk du lo) = (l, s)"
    and time: "time \<noteq> - 1"
    and clean: "Seek_store (- 1) \<notin> set between" "Seek_store (- 1) \<notin> set after"
    and run: "exec (Seek_store time # between @ Seek_flush # after) (l, s) = (l', s')"
    and delivered: "buffer_' (snd (next_frame field s')) \<noteq> buffer_' s'"
  shows "(\<forall>f \<in> pending (l, s). frame_count f < frame_count_' s)
    \<and> buffer_' s' \<noteq> []
    \<and> fst (next_frame field s') = frame (buffer_' s' ! 0)
    \<and> frame_count_' s \<le> frame_count (buffer_' s' ! 0)
    \<and> buffer_' s' ! 0 \<notin> pending (l, s)
    \<and> buffer_' (seek time s) = [] \<and> seek_' (seek time s) = time
    \<and> (buffer_has_room s \<and> seek_' s \<noteq> - 1 \<longrightarrow>
         run_push l s = Some (Push_skipped, l\<lparr>pc := Loop_top, run_frame := Frame_empty\<rparr>, s))"
proof -
  let ?n = "frame_count_' s"
  have "frames_numbered (run_locals_new, Impl_new fc fd capacity ok st sk du lo)"
    by (simp add: frames_numbered_def pending_def run_locals_new_def Impl_new_def)
  then have "frames_numbered (l, s)"
    using exec_frames_numbered [of _ before] reach by metis
  then have old: "\<forall>f \<in> pending (l, s). frame_count f < ?n"
    by (simp add: frames_numbered_def)
  let ?x1 = "step (Seek_store time) (l, s)"
  have h1: "hand_fresh ?n ?x1"
    using time by (simp add: hand_fresh_def seek_store_def)
  let ?x2 = "exec between ?x1"
  have h2: "hand_fresh ?n ?x2"
    using h1 clean(1) by (rule exec_hand_fresh)
  let ?x3 = "step Seek_flush ?x2"
  have h3: "hand_fresh ?n ?x3"
    using h2 by (rule step_hand_fresh) simp
  have "buffer_' (snd ?x3) = []"
    by (cases ?x2) (simp add: seek_flush_def)
  then have b3: "buffer_fresh ?n ?x3"
    by (simp add: buffer_fresh_def)
  have "exec (Seek_store time # between @ Seek_flush # after) (l, s) = exec after ?x3"
    by (simp add: exec_def)
  with run have e: "exec after ?x3 = (l', s')" by simp
  have "buffer_fresh ?n (exec after ?x3)"
    using h3 b3 clean(2) by (rule exec_fresh)
  then have new: "\<forall>f \<in> set (buffer_' s'). ?n \<le> frame_count f"
    unfolding e buffer_fresh_def by simp
  note r = next_frame_changed_buffer [OF delivered]
  from r(1) have "buffer_' s' ! 0 \<in> set (buffer_' s')" by simp
  with new have fresh: "?n \<le> frame_count (buffer_' s' ! 0)" by blast
  with old have "buffer_' s' ! 0 \<notin> pending (l, s)" by fastforce
  moreover have "buffer_' (seek time s) = []" "seek_' (seek time s) = time"
    by (simp_all add: seek_def seek_flush_def seek_store_def)
  moreover have "buffer_has_room s \<and> seek_' s \<noteq> - 1 \<longrightarrow>
         run_push l s = Some (Push_skipped, l\<lparr>pc := Loop_top, run_frame := Frame_empty\<rparr>, s)"
    by (simp add: run_push_def)
  ultimately show ?thesis using old r(1) r(2) fresh by blast
qed

lemma other_seek_delivers_no_stale_frame_example:
  "(0::int) \<noteq> - 1
   \<and> Seek_store (- 1) \<notin> set fresh_after
   \<and> stale_frame \<in> pending (exec stale_before example_progressive)
   \<and> frame_count_' (snd (exec stale_before example_progressive)) = 2
   \<and> buffer_' (snd (next_frame Field_progressive
        (snd (exec seek_zero_run (exec stale_before example_progressive)))))
      \<noteq> buffer_' (snd (exec seek_zero_run (exec stale_before example_progressive)))
   \<and> fst (next_frame Field_progressive
        (snd (exec seek_zero_run (exec stale_before example_progressive))))
      = Picture 9
   \<and> 2 \<le> frame_count (buffer_' (snd (exec seek_zero_run (exec stale_before example_progressive))) ! 0)"
proof -
  let ?x = "exec stale_before example_progressive"
  let ?y = "exec seek_zero_run ?x"
  have reach: "exec stale_before (run_locals_new, Impl_new 1 40 6 True None None None None)
                 = (fst ?x, snd ?x)"
    by (simp add: example_progressive_def)
  have time: "(0::int) \<noteq> - 1" by simp
  have c1: "Seek_store (- 1) \<notin> set []" by simp
  have c2: "Seek_store (- 1) \<notin> set fresh_after" by (simp add: fresh_after_def)
  have run: "exec (Seek_store 0 # [] @ Seek_flush # fresh_after) (fst ?x, snd ?x) = (fst ?y, snd ?y)"
    by (simp add: seek_zero_run_def)
  have x: "stale_frame \<in> pending ?x" "frame_count_' (snd ?x) = 2"
    by (simp_all add: model_defs stale_before_def pending_def)
  have y: "buffer_' (snd ?y) = [stale_frame\<lparr>video := Some 9, frame := Picture 9, frame_count := 2\<rparr>]"
    "frame_flush_' (snd ?y) = False"
    by (simp_all add: model_defs stale_before_def fresh_after_def seek_zero_run_def)
  have a: "\<not> (buffer_' (snd ?y) = [] \<or> (frame_flush_' (snd ?y) \<and> length (buffer_' (snd ?y)) < 4))"
    by (simp add: y)
  have b: "\<not> (format_field_count (snd ?y) = 2 \<and>
        ((Field_progressive = Field_a \<and> \<not> (cpp_rem (frame_count (buffer_' (snd ?y) ! 0)) 2 = 0)) \<or>
         (Field_progressive = Field_b \<and> cpp_rem (frame_count (buffer_' (snd ?y) ! 0)) 2 = 0)))"
    by (simp add: y)
  have "buffer_' (snd (next_frame Field_progressive (snd ?y))) = tl (buffer_' (snd ?y))"
    by (simp add: next_frame_pop [OF a b])
  then have delivered: "buffer_' (snd (next_frame Field_progressive (snd ?y))) \<noteq> buffer_' (snd ?y)"
    by (simp add: y)
  from other_seek_delivers_no_stale_frame [OF reach time c1 c2 run delivered]
  have "fst (next_frame Field_progressive (snd ?y)) = frame (buffer_' (snd ?y) ! 0)"
    "frame_count_' (snd ?x) \<le> frame_count (buffer_' (snd ?y) ! 0)"
    by blast+
  then have "fst (next_frame Field_progressive (snd ?y)) = Picture 9"
    "2 \<le> frame_count (buffer_' (snd ?y) ! 0)"
    by (simp_all add: y x stale_frame_def)
  with time c2 x delivered show ?thesis by blast
qed

section \<open>Capture side: results\<close>

lemma send_full:
  "exception_' c = None \<Longrightarrow> \<not> int (length (frame_buffer_' c)) < frame_buffer_capacity c \<Longrightarrow>
   send f c = Inr (is_running_' c, c\<lparr>graph_' := graph_' c @ [''dropped-frame'']\<rparr>)"
  by (simp add: send_def try_push_def)

lemma send_all_full:
  "exception_' c = None \<Longrightarrow> \<not> int (length (frame_buffer_' c)) < frame_buffer_capacity c \<Longrightarrow>
   send_all fs c = Inr (c\<lparr>graph_' := graph_' c @ replicate (length fs) ''dropped-frame''\<rparr>)"
proof (induction fs arbitrary: c)
  case Nil
  then show ?case by simp
next
  case (Cons f fs)
  let ?c' = "c\<lparr>graph_' := graph_' c @ [''dropped-frame'']\<rparr>"
  have "send_all (f # fs) c = send_all fs ?c'"
    using Cons.prems by (simp add: send_full)
  also have "\<dots> = Inr (?c'\<lparr>graph_' := graph_' ?c' @ replicate (length fs) ''dropped-frame''\<rparr>)"
    using Cons.prems by (intro Cons.IH) simp_all
  finally show ?case by (simp add: replicate_append_same)
qed

lemma send_first_realtime:
  "send f (gstreamer_consumer_new True) =
     Inr (False, (gstreamer_consumer_new True)\<lparr>frame_buffer_' := [f]\<rparr>)"
  by (simp add: send_def try_push_def gstreamer_consumer_new_def)

text \<open>
  C1 (as stated, refuted).  Ten frames numbered 1 to 10 are sent to a fresh realtime
  consumer (capacity 1) and nothing is popped.  One frame is retained and nine
  \<open>dropped-frame\<close> tags are raised, but the retained frame is frame 1, the oldest, not
  frame 10: \<open>try_push\<close> refuses the new frame when the queue is full.
\<close>

theorem C1_retained_is_not_tenth:
  "send_all ten_frames (gstreamer_consumer_new True) =
     Inr ((gstreamer_consumer_new True)
            \<lparr>frame_buffer_' := [Some 1], graph_' := replicate 9 ''dropped-frame''\<rparr>)
   \<and> [Some (1::nat)] \<noteq> [Some 10]"
  by (simp add: ten_frames_def send_def try_push_def gstreamer_consumer_new_def
        eval_nat_numeral)

text \<open>
  C1 (amended).  For a realtime capture queue (capacity 1), any non-empty sequence of
  \<open>send\<close> calls with no intervening pop leaves exactly one frame in the queue, the first
  (oldest) one pushed, and raises one \<open>dropped-frame\<close> tag for every later call; for ten
  calls that is nine tags.
\<close>

theorem C1_realtime_keeps_oldest:
  assumes "fs \<noteq> []"
  shows "send_all fs (gstreamer_consumer_new True) =
           Inr ((gstreamer_consumer_new True)
                  \<lparr>frame_buffer_' := [hd fs],
                   graph_' := replicate (length fs - 1) ''dropped-frame''\<rparr>)"
proof -
  from assms obtain f rest where fs: "fs = f # rest" by (cases fs) auto
  let ?c = "(gstreamer_consumer_new True)\<lparr>frame_buffer_' := [f]\<rparr>"
  have "send_all fs (gstreamer_consumer_new True) = send_all rest ?c"
    by (simp add: fs send_first_realtime)
  also have "\<dots> = Inr (?c\<lparr>graph_' := graph_' ?c @ replicate (length rest) ''dropped-frame''\<rparr>)"
    by (rule send_all_full) (simp_all add: gstreamer_consumer_new_def)
  finally show ?thesis by (simp add: fs gstreamer_consumer_new_def)
qed

theorem C1_realtime_keeps_oldest_witness:
  "ten_frames \<noteq> [] \<and>
   send_all ten_frames (gstreamer_consumer_new True) =
     Inr ((gstreamer_consumer_new True)
            \<lparr>frame_buffer_' := [Some 1], graph_' := replicate 9 ''dropped-frame''\<rparr>)"
proof -
  have ne: "ten_frames \<noteq> []" by (simp add: ten_frames_def)
  have "length ten_frames - 1 = 9" "hd ten_frames = Some 1"
    by (simp_all add: ten_frames_def)
  with C1_realtime_keeps_oldest [OF ne] ne show ?thesis by simp
qed

text \<open>
  C10.  When an exception is stored (as the encode thread's handler does), \<open>send\<close>
  rethrows exactly that exception, and the consumer is untouched when the exception
  leaves the call: nothing has been enqueued and no tag raised.  When none is stored,
  \<open>send\<close> does not throw: it returns the ready future carrying the running flag, and the
  flag and the exception slot are left as they were.
\<close>

theorem C10_send_rethrows_or_returns_running:
  "send f (frame_thread_catch e c) = Inl (e, frame_thread_catch e c)
   \<and> frame_buffer_' (frame_thread_catch e c) = frame_buffer_' c
   \<and> graph_' (frame_thread_catch e c) = graph_' c
   \<and> (exception_' c = Some e \<longrightarrow> send f c = Inl (e, c))
   \<and> (exception_' c = None \<longrightarrow>
        (\<exists>c'. send f c = Inr (is_running_' c, c') \<and> is_running_' c' = is_running_' c
               \<and> exception_' c' = None))"
  by (simp add: send_def frame_thread_catch_def try_push_def)

theorem C10_send_rethrows_or_returns_running_witness:
  "exception_' (frame_thread_catch ''boom'' (gstreamer_consumer_new True)) = Some ''boom''
   \<and> send (Some 1) (frame_thread_catch ''boom'' (gstreamer_consumer_new True))
       = Inl (''boom'', frame_thread_catch ''boom'' (gstreamer_consumer_new True))
   \<and> frame_buffer_' (frame_thread_catch ''boom'' (gstreamer_consumer_new True)) = []
   \<and> graph_' (frame_thread_catch ''boom'' (gstreamer_consumer_new True)) = []
   \<and> exception_' (gstreamer_consumer_new False) = None
   \<and> (\<exists>c'. send (Some 1) (gstreamer_consumer_new False) = Inr (False, c'))"
proof -
  let ?c = "frame_thread_catch ''boom'' (gstreamer_consumer_new True)"
  have a: "exception_' ?c = Some ''boom''"
    by (simp add: frame_thread_catch_def)
  have q: "frame_buffer_' ?c = []" "graph_' ?c = []"
    by (simp_all add: frame_thread_catch_def gstreamer_consumer_new_def)
  have b: "exception_' (gstreamer_consumer_new False) = None"
    by (simp add: gstreamer_consumer_new_def)
  have r: "is_running_' (gstreamer_consumer_new False) = False"
    by (simp add: gstreamer_consumer_new_def)
  from C10_send_rethrows_or_returns_running [of "Some 1" "''boom''" ?c] a
  have one: "send (Some 1) ?c = Inl (''boom'', ?c)" by blast
  from C10_send_rethrows_or_returns_running [of "Some 1" "''boom''" "gstreamer_consumer_new False"] b r
  have two: "\<exists>c'. send (Some 1) (gstreamer_consumer_new False) = Inr (False, c')" by auto
  from a q b one two show ?thesis by blast
qed

end
